theory Spec2Isabelle
  imports Complex_Main "HOL-Library.Word" "HOL-Library.Stream"
begin

section \<open>Word Constellations: the simulation core of script.js\<close>

text \<open>
  The embedding follows \<^verbatim>\<open>src/script.js\<close>. JavaScript numbers are idealised as
  \<^typ>\<open>real\<close> (no rounding, no overflow), with one exception: the fields \<open>vx\<close> and
  \<open>vy\<close> of a node, which the constructor never assigns, so that they hold
  \<^verbatim>\<open>undefined\<close> until the first compound assignment turns them into \<^verbatim>\<open>NaN\<close>.
  The two sources of nondeterminism, \<^verbatim>\<open>Math.random()\<close> and \<^verbatim>\<open>performance.now()\<close>,
  are streams of future results that every function consuming them threads through.
\<close>

subsection \<open>Numbers that may be undefined\<close>

datatype jsnum = Undefined | NaN | Num real

text \<open>\<^verbatim>\<open>v += e\<close> and \<^verbatim>\<open>v -= e\<close> for a finite number \<open>e\<close>: \<^verbatim>\<open>undefined\<close> converts to
  \<^verbatim>\<open>NaN\<close>, and \<^verbatim>\<open>NaN\<close> absorbs.\<close>

fun js_add :: "jsnum \<Rightarrow> real \<Rightarrow> jsnum" where
  "js_add (Num v) e = Num (v + e)"
| "js_add NaN e = NaN"
| "js_add Undefined e = NaN"

fun js_sub :: "jsnum \<Rightarrow> real \<Rightarrow> jsnum" where
  "js_sub (Num v) e = Num (v - e)"
| "js_sub NaN e = NaN"
| "js_sub Undefined e = NaN"

text \<open>\<^verbatim>\<open>v *= e\<close>, the update that a drag on the velocity would be; no function of the source
  performs it.\<close>

fun js_mul :: "jsnum \<Rightarrow> real \<Rightarrow> jsnum" where
  "js_mul (Num v) e = Num (v * e)"
| "js_mul NaN e = NaN"
| "js_mul Undefined e = NaN"

subsection \<open>Data model\<close>

text \<open>A string is its sequence of UTF-16 code units.\<close>

type_synonym jsstring = "16 word list"

text \<open>A trail sample \<^verbatim>\<open>{ x, y, t }\<close>.\<close>

type_synonym sample = "real \<times> real \<times> real"

record Node =
  "text" :: jsstring
  x :: real
  y :: real
  vx :: jsnum
  vy :: jsnum
  mass :: real
  radius :: real
  hue :: real
  trail :: "sample list"
  angle :: real
  angularVel :: real
  turbulencePhase :: real
  inConstellation :: bool
  orbitCenterX :: real
  orbitCenterY :: real
  orbitRadius :: real
  orbitSpeed :: real
  orbitDirection :: real
  orbitPhase :: real
  secondaryCenterX :: real
  secondaryCenterY :: real
  secondaryRadius :: real
  secondarySpeed :: real
  secondaryDirection :: real
  secondaryPhase :: real

text \<open>A link \<^verbatim>\<open>{ i, j, d }\<close>.\<close>

record Link =
  li :: nat
  lj :: nat
  ld :: real

record STATE =
  width :: real
  height :: real
  nodes :: "Node list"
  links :: "Link list"
  lastTime :: real
  noiseSeed :: real

text \<open>The future results of \<^verbatim>\<open>Math.random()\<close> and of \<^verbatim>\<open>performance.now()\<close>.\<close>

record Env =
  randoms :: "real stream"
  clock :: "real stream"

definition Math_random :: "Env \<Rightarrow> real \<times> Env" where
  "Math_random env = (shd (randoms env), env\<lparr>randoms := stl (randoms env)\<rparr>)"

definition performance_now :: "Env \<Rightarrow> real \<times> Env" where
  "performance_now env = (shd (clock env), env\<lparr>clock := stl (clock env)\<rparr>)"

text \<open>\<^verbatim>\<open>Math.random()\<close> returns a number in \<open>[0, 1)\<close>.\<close>

definition random_ok :: "Env \<Rightarrow> bool" where
  "random_ok env = (\<forall>r\<in>sset (randoms env). 0 \<le> r \<and> r < 1)"

subsection \<open>Utilities\<close>

definition rand :: "real \<Rightarrow> real \<Rightarrow> Env \<Rightarrow> real \<times> Env" where
  "rand a b env = (let (r, env) = Math_random env in (a + r * (b - a), env))"

definition clamp :: "real \<Rightarrow> real \<Rightarrow> real \<Rightarrow> real" where
  "clamp v a b = max a (min b v)"

definition lerp :: "real \<Rightarrow> real \<Rightarrow> real \<Rightarrow> real" where
  "lerp a b t = a + (b - a) * t"

definition hypot :: "real \<Rightarrow> real \<Rightarrow> real" where
  "hypot dx dy = sqrt (dx * dx + dy * dy)"

text \<open>\<^verbatim>\<open>noise2\<close> reads \<^verbatim>\<open>STATE.noiseSeed\<close>, here its first argument. This is \<^verbatim>\<open>noise2\<close>
  in exact arithmetic, as the motion model uses it; \<open>noise2_double\<close> below is the same
  expression on doubles.\<close>

definition noise2 :: "real \<Rightarrow> real \<Rightarrow> real \<Rightarrow> real" where
  "noise2 seed px py =
     (let s = sin (px * 12.9898 + py * 78.233 + seed) * 43758.5453
      in s - of_int \<lfloor>s\<rfloor>)"

subsection \<open>Double-precision arithmetic\<close>

text \<open>
  The claim about the range of \<^verbatim>\<open>noise2\<close> is a claim about double-precision arithmetic, so
  \<^verbatim>\<open>noise2\<close> is modelled a second time on doubles: a value is a finite real, an infinity
  or \<^verbatim>\<open>NaN\<close> (the two zeros are not told apart). The result of an operation on finite
  values is the exact result rounded to the nearest number with a significand of 53
  bits, ties to even, with the subnormal range below \<open>2\<^sup>-\<^sup>1\<^sup>0\<^sup>2\<^sup>2\<close>; a rounded result beyond the
  largest double is an infinity. A number literal of the source is the double nearest to
  it. \<^verbatim>\<open>Math.sin\<close>, which the language leaves to the implementation up to approximation,
  is the correctly rounded sine, and \<^verbatim>\<open>NaN\<close> at an infinity or at \<^verbatim>\<open>NaN\<close>.
\<close>

datatype double = Finite real | PosInfinity | NegInfinity | NotANumber

definition max_double :: real where
  "max_double = 2 ^ 1024 - 2 ^ 971"

definition round_even :: "real \<Rightarrow> int" where
  "round_even q =
     (let f = \<lfloor>q\<rfloor>
      in if q - of_int f < 1 / 2 then f
         else if q - of_int f > 1 / 2 then f + 1
         else if even f then f else f + 1)"

definition ulp_exponent :: "real \<Rightarrow> int" where
  "ulp_exponent r = max \<lfloor>log 2 \<bar>r\<bar>\<rfloor> (- 1022) - 52"

definition rnd :: "real \<Rightarrow> real" where
  "rnd r =
     (if r = 0 then 0
      else of_int (round_even (r / 2 powr of_int (ulp_exponent r))) * 2 powr of_int (ulp_exponent r))"

definition to_double :: "real \<Rightarrow> double" where
  "to_double r =
     (let v = rnd r
      in if v > max_double then PosInfinity
         else if v < - max_double then NegInfinity
         else Finite v)"

fun d_neg :: "double \<Rightarrow> double" where
  "d_neg (Finite a) = Finite (- a)"
| "d_neg PosInfinity = NegInfinity"
| "d_neg NegInfinity = PosInfinity"
| "d_neg NotANumber = NotANumber"

fun d_add :: "double \<Rightarrow> double \<Rightarrow> double" where
  "d_add (Finite a) (Finite b) = to_double (a + b)"
| "d_add NotANumber _ = NotANumber"
| "d_add _ NotANumber = NotANumber"
| "d_add PosInfinity NegInfinity = NotANumber"
| "d_add NegInfinity PosInfinity = NotANumber"
| "d_add PosInfinity _ = PosInfinity"
| "d_add NegInfinity _ = NegInfinity"
| "d_add _ PosInfinity = PosInfinity"
| "d_add _ NegInfinity = NegInfinity"

definition d_sub :: "double \<Rightarrow> double \<Rightarrow> double" where
  "d_sub a b = d_add a (d_neg b)"

fun d_mul :: "double \<Rightarrow> double \<Rightarrow> double" where
  "d_mul (Finite a) (Finite b) = to_double (a * b)"
| "d_mul NotANumber _ = NotANumber"
| "d_mul _ NotANumber = NotANumber"
| "d_mul (Finite a) PosInfinity =
     (if a = 0 then NotANumber else if a > 0 then PosInfinity else NegInfinity)"
| "d_mul (Finite a) NegInfinity =
     (if a = 0 then NotANumber else if a > 0 then NegInfinity else PosInfinity)"
| "d_mul PosInfinity (Finite b) =
     (if b = 0 then NotANumber else if b > 0 then PosInfinity else NegInfinity)"
| "d_mul NegInfinity (Finite b) =
     (if b = 0 then NotANumber else if b > 0 then NegInfinity else PosInfinity)"
| "d_mul PosInfinity PosInfinity = PosInfinity"
| "d_mul NegInfinity NegInfinity = PosInfinity"
| "d_mul PosInfinity NegInfinity = NegInfinity"
| "d_mul NegInfinity PosInfinity = NegInfinity"

fun d_sin :: "double \<Rightarrow> double" where
  "d_sin (Finite a) = Finite (rnd (sin a))"
| "d_sin _ = NotANumber"

fun d_floor :: "double \<Rightarrow> double" where
  "d_floor (Finite a) = Finite (of_int \<lfloor>a\<rfloor>)"
| "d_floor d = d"

text \<open>\<^verbatim>\<open>x * 12.9898 + y * 78.233 + STATE.noiseSeed\<close>, the argument of the sine, and
  \<^verbatim>\<open>noise2\<close> on doubles.\<close>

definition sine_argument :: "double \<Rightarrow> double \<Rightarrow> double \<Rightarrow> double" where
  "sine_argument seed px py =
     d_add (d_add (d_mul px (Finite (rnd 12.9898))) (d_mul py (Finite (rnd 78.233)))) seed"

definition noise2_double :: "double \<Rightarrow> double \<Rightarrow> double \<Rightarrow> double" where
  "noise2_double seed px py =
     (let s = d_mul (d_sin (sine_argument seed px py)) (Finite (rnd 43758.5453))
      in d_sub s (d_floor s))"

subsection \<open>Physics parameters\<close>

record PHYS_params =
  globalDrag :: real
  softAttract :: real
  minLinkDistance :: real
  maxLinkDistance :: real
  curveBend :: real
  trailKeep :: nat
  trailFade :: real
  orbitFreq :: real
  orbitAmp :: real
  noiseStrength :: real
  turbulenceFreq :: real
  repulsionStrength :: real
  repulsionDistance :: real
  angularVelocity :: real
  constellationDistance :: real
  orbitDrift :: real
  centerDrift :: real

definition PHYS :: PHYS_params where
  "PHYS = \<lparr> globalDrag = 0.98, softAttract = 0.02, minLinkDistance = 48,
            maxLinkDistance = 320, curveBend = 0.16, trailKeep = 40, trailFade = 0.06,
            orbitFreq = 0.6, orbitAmp = 6, noiseStrength = 0.3, turbulenceFreq = 0.003,
            repulsionStrength = 0.05, repulsionDistance = 24, angularVelocity = 0.02,
            constellationDistance = 120, orbitDrift = 0.1, centerDrift = 0.05 \<rparr>"

subsection \<open>Link Builder\<close>

text \<open>The body of the inner loop of \<^verbatim>\<open>rebuildLinks\<close>, for one pair \<open>i < j\<close>.\<close>

definition link_pair :: "Node list \<Rightarrow> nat \<Rightarrow> nat \<Rightarrow> Link list \<Rightarrow> Link list" where
  "link_pair ns i j acc =
     (let a = ns ! i;
          b = ns ! j;
          dx = x b - x a;
          dy = y b - y a;
          d = hypot dx dy
      in if d < constellationDistance PHYS then acc @ [\<lparr> li = i, lj = j, ld = d \<rparr>] else acc)"

definition rebuildLinks :: "STATE \<Rightarrow> STATE" where
  "rebuildLinks st =
     (let ns = nodes st;
          ls = fold (\<lambda>i acc. fold (\<lambda>j acc. link_pair ns i j acc) [i + 1 ..< length ns] acc)
                 [0 ..< length ns] []
      in st\<lparr>links := ls\<rparr>)"

text \<open>Membership of an unordered pair in a link list.\<close>

definition has_link :: "Link list \<Rightarrow> nat \<Rightarrow> nat \<Rightarrow> bool" where
  "has_link ls i j = (\<exists>l\<in>set ls. (li l = i \<and> lj l = j) \<or> (li l = j \<and> lj l = i))"

text \<open>The Euclidean distance between the nodes at two indices.\<close>

definition node_dist :: "Node list \<Rightarrow> nat \<Rightarrow> nat \<Rightarrow> real" where
  "node_dist ns i j = hypot (x (ns ! j) - x (ns ! i)) (y (ns ! j) - y (ns ! i))"

subsection \<open>Node creation\<close>

text \<open>
  The constructor of \<^verbatim>\<open>class Node\<close>. It draws seventeen random numbers, in the order
  of its assignments, and assigns neither \<^verbatim>\<open>vx\<close> nor \<^verbatim>\<open>vy\<close>: a fresh node reads
  \<^verbatim>\<open>undefined\<close> there.
\<close>

definition new_Node :: "jsstring \<Rightarrow> real \<Rightarrow> real \<Rightarrow> Env \<Rightarrow> Node \<times> Env" where
  "new_Node txt px py env =
     (let (mass', env) = rand 0.6 1.6 env;
          radius' = 8 + mass' * 3.5;
          (hue', env) = rand 215 235 env;
          (angle', env) = rand 0 (pi * 2) env;
          (angularVel', env) = rand 0.02 0.08 env;
          (turbulencePhase', env) = rand 0 (pi * 2) env;
          (r, env) = rand (- 200) 200 env;
          orbitCenterX' = px + r;
          (r, env) = rand (- 200) 200 env;
          orbitCenterY' = py + r;
          (orbitRadius', env) = rand 120 300 env;
          (orbitSpeed', env) = rand 0.3 1.2 env;
          (r, env) = rand (- 1) 1 env;
          orbitDirection' = (if r > 0 then 1 else - 1);
          (orbitPhase', env) = rand 0 (pi * 2) env;
          (r, env) = rand (- 80) 80 env;
          secondaryCenterX' = orbitCenterX' + r;
          (r, env) = rand (- 80) 80 env;
          secondaryCenterY' = orbitCenterY' + r;
          (secondaryRadius', env) = rand 60 150 env;
          (secondarySpeed', env) = rand 0.8 2.5 env;
          (r, env) = rand (- 1) 1 env;
          secondaryDirection' = (if r > 0 then 1 else - 1);
          (secondaryPhase', env) = rand 0 (pi * 2) env
      in (\<lparr> text = txt, x = px, y = py, vx = Undefined, vy = Undefined,
            mass = mass', radius = radius', hue = hue', trail = [],
            angle = angle', angularVel = angularVel', turbulencePhase = turbulencePhase',
            inConstellation = False,
            orbitCenterX = orbitCenterX', orbitCenterY = orbitCenterY',
            orbitRadius = orbitRadius', orbitSpeed = orbitSpeed',
            orbitDirection = orbitDirection', orbitPhase = orbitPhase',
            secondaryCenterX = secondaryCenterX', secondaryCenterY = secondaryCenterY',
            secondaryRadius = secondaryRadius', secondarySpeed = secondarySpeed',
            secondaryDirection = secondaryDirection', secondaryPhase = secondaryPhase' \<rparr>,
          env))"

text \<open>\<^verbatim>\<open>createNode(text, x = rand(80, STATE.width - 80), y = rand(80, STATE.height - 80))\<close>:
  an omitted coordinate is \<open>None\<close>, and its default is drawn before the constructor runs.\<close>

definition createNode :: "jsstring \<Rightarrow> real option \<Rightarrow> real option \<Rightarrow> STATE \<Rightarrow> Env \<Rightarrow> STATE \<times> Env" where
  "createNode txt xo yo st env =
     (let (px, env) = (case xo of Some v \<Rightarrow> (v, env) | None \<Rightarrow> rand 80 (width st - 80) env);
          (py, env) = (case yo of Some v \<Rightarrow> (v, env) | None \<Rightarrow> rand 80 (height st - 80) env);
          (node, env) = new_Node txt px py env
      in (st\<lparr>nodes := nodes st @ [node]\<rparr>, env))"

subsection \<open>Input handling\<close>

text \<open>
  The code units that \<^verbatim>\<open>String.prototype.trim\<close> strips: the ECMAScript white space
  (TAB, VT, FF, SP, NBSP, ZWNBSP and the space separators) and the line terminators
  (LF, CR, LS, PS).
\<close>

definition is_whitespace :: "16 word \<Rightarrow> bool" where
  "is_whitespace c \<longleftrightarrow>
     c \<in> set [0x0009, 0x000A, 0x000B, 0x000C, 0x000D, 0x0020, 0x00A0, 0x1680,
               0x2000, 0x2001, 0x2002, 0x2003, 0x2004, 0x2005, 0x2006, 0x2007,
               0x2008, 0x2009, 0x200A, 0x2028, 0x2029, 0x202F, 0x205F, 0x3000, 0xFEFF]"

definition trim :: "jsstring \<Rightarrow> jsstring" where
  "trim s = rev (dropWhile is_whitespace (rev (dropWhile is_whitespace s)))"

text \<open>
  The submit handler of the form. Its argument is \<^verbatim>\<open>input.value\<close>; it returns the new
  \<^verbatim>\<open>input.value\<close> with the state. (\<^verbatim>\<open>input.value || ''\<close> is the value itself, the empty
  string being the only falsy string.)
\<close>

definition form_submit :: "jsstring \<Rightarrow> STATE \<Rightarrow> Env \<Rightarrow> jsstring \<times> STATE \<times> Env" where
  "form_submit input_value st env =
     (let txt = trim input_value
      in if txt = [] then (input_value, st, env)
         else let (px, env) = rand (width st * 0.3) (width st * 0.7) env;
                  (py, env) = rand (height st * 0.3) (height st * 0.7) env;
                  (st, env) = createNode txt (Some px) (Some py) st env
              in ([], st, env))"

text \<open>\<^verbatim>\<open>resize\<close>, as far as the simulation state goes; its arguments are
  \<^verbatim>\<open>window.innerWidth\<close> and \<^verbatim>\<open>window.innerHeight\<close>.\<close>

definition resize :: "real \<Rightarrow> real \<Rightarrow> STATE \<Rightarrow> STATE" where
  "resize innerWidth innerHeight st = st\<lparr>width := innerWidth, height := innerHeight\<rparr>"

subsection \<open>Force Field\<close>

text \<open>The body of the pairwise loop of \<^verbatim>\<open>step\<close> (lines 139 to 175) on the two node
  objects \<open>a = nodes[i]\<close> and \<open>b = nodes[j]\<close>.\<close>

definition pair_update :: "real \<Rightarrow> Node \<Rightarrow> Node \<Rightarrow> Node \<times> Node" where
  "pair_update dt a b =
     (let dx = x b - x a;
          dy = y b - y a;
          distSq = dx * dx + dy * dy;
          dist = sqrt distSq + 0.000001;
          (a, b) = (if dist < constellationDistance PHYS
                    then (a\<lparr>inConstellation := True\<rparr>, b\<lparr>inConstellation := True\<rparr>)
                    else (a, b))
      in if dist < maxLinkDistance PHYS * 1.25 then
           if dist > minLinkDistance PHYS then
             let strength = softAttract PHYS / distSq;
                 nx = dx / dist;
                 ny = dy / dist;
                 fx = nx * strength;
                 fy = ny * strength
             in (a\<lparr>vx := js_add (vx a) (fx * dt * mass b), vy := js_add (vy a) (fy * dt * mass b)\<rparr>,
                 b\<lparr>vx := js_sub (vx b) (fx * dt * mass a), vy := js_sub (vy b) (fy * dt * mass a)\<rparr>)
           else if dist < repulsionDistance PHYS then
             let strength = repulsionStrength PHYS / (distSq + 0.000001);
                 nx = dx / dist;
                 ny = dy / dist;
                 fx = nx * strength;
                 fy = ny * strength
             in (a\<lparr>vx := js_sub (vx a) (fx * dt * mass b), vy := js_sub (vy a) (fy * dt * mass b)\<rparr>,
                 b\<lparr>vx := js_add (vx b) (fx * dt * mass a), vy := js_add (vy b) (fy * dt * mass a)\<rparr>)
           else (a, b)
         else (a, b))"

definition pair_force :: "real \<Rightarrow> nat \<Rightarrow> nat \<Rightarrow> Node list \<Rightarrow> Node list" where
  "pair_force dt i j ns = (let (a, b) = pair_update dt (ns ! i) (ns ! j) in ns[i := a, j := b])"

text \<open>The Force Field pass: lines 130 to 177 of \<^verbatim>\<open>step\<close>.\<close>

definition reset_constellation :: "Node list \<Rightarrow> Node list" where
  "reset_constellation ns = map (\<lambda>node. node\<lparr>inConstellation := False\<rparr>) ns"

definition forces :: "real \<Rightarrow> Node list \<Rightarrow> Node list" where
  "forces dt ns =
     fold (\<lambda>i ns. fold (\<lambda>j ns. pair_force dt i j ns) [i + 1 ..< length ns] ns) [0 ..< length ns] ns"

subsection \<open>Node Motion Model\<close>

text \<open>Lines 184 to 187: the drift of the orbit centres.\<close>

definition drift_centers :: "real \<Rightarrow> real \<Rightarrow> real \<Rightarrow> Node \<Rightarrow> Node" where
  "drift_centers seed time dt n =
     (let n = n\<lparr>orbitCenterX := orbitCenterX n
                 + (noise2 seed (orbitCenterX n * 0.01) (time * 0.1) - 0.5) * centerDrift PHYS * dt\<rparr>;
          n = n\<lparr>orbitCenterY := orbitCenterY n
                 + (noise2 seed (orbitCenterY n * 0.01) (time * 0.1) - 0.5) * centerDrift PHYS * dt\<rparr>;
          n = n\<lparr>secondaryCenterX := secondaryCenterX n
                 + (noise2 seed (secondaryCenterX n * 0.01) (time * 0.15) - 0.5) * centerDrift PHYS * dt\<rparr>;
          n = n\<lparr>secondaryCenterY := secondaryCenterY n
                 + (noise2 seed (secondaryCenterY n * 0.01) (time * 0.15) - 0.5) * centerDrift PHYS * dt\<rparr>
      in n)"

text \<open>Lines 190 and 191: the orbital phases.\<close>

definition advance_phases :: "real \<Rightarrow> Node \<Rightarrow> Node" where
  "advance_phases dt n =
     (let n = n\<lparr>orbitPhase := orbitPhase n + orbitSpeed n * orbitDirection n * dt\<rparr>;
          n = n\<lparr>secondaryPhase := secondaryPhase n + secondarySpeed n * secondaryDirection n * dt\<rparr>
      in n)"

text \<open>Lines 194 to 209: the blend of the two orbits and the move towards it.\<close>

definition seek_target :: "real \<Rightarrow> Node \<Rightarrow> Node" where
  "seek_target dt n =
     (let primaryX = orbitCenterX n + cos (orbitPhase n) * orbitRadius n;
          primaryY = orbitCenterY n + sin (orbitPhase n) * orbitRadius n;
          secondaryX = secondaryCenterX n + cos (secondaryPhase n) * secondaryRadius n;
          secondaryY = secondaryCenterY n + sin (secondaryPhase n) * secondaryRadius n;
          blendFactor = 0.7;
          targetX = primaryX * blendFactor + secondaryX * (1 - blendFactor);
          targetY = primaryY * blendFactor + secondaryY * (1 - blendFactor);
          moveSpeed = 2.0;
          n = n\<lparr>x := x n + (targetX - x n) * moveSpeed * dt\<rparr>;
          n = n\<lparr>y := y n + (targetY - y n) * moveSpeed * dt\<rparr>
      in n)"

text \<open>Lines 212 to 215: the jitter, computed from the position already moved.\<close>

definition jitter :: "real \<Rightarrow> real \<Rightarrow> real \<Rightarrow> Node \<Rightarrow> Node" where
  "jitter seed time dt n =
     (let noiseX = (noise2 seed (x n * 0.01) (time * 0.2) - 0.5) * noiseStrength PHYS;
          noiseY = (noise2 seed (y n * 0.01) (time * 0.2) - 0.5) * noiseStrength PHYS;
          n = n\<lparr>x := x n + noiseX * dt\<rparr>;
          n = n\<lparr>y := y n + noiseY * dt\<rparr>
      in n)"

text \<open>Lines 218 and 219: the rotation.\<close>

definition rotate_node :: "real \<Rightarrow> Node \<Rightarrow> Env \<Rightarrow> Node \<times> Env" where
  "rotate_node dt n env =
     (let n = n\<lparr>angle := angle n + angularVel n * dt\<rparr>;
          (r, env) = rand (- 0.001) 0.001 env;
          n = n\<lparr>angularVel := angularVel n + (r - angularVel n * 0.1) * dt\<rparr>
      in (n, env))"

text \<open>Lines 222 to 237: the soft wrap, four tests in sequence.\<close>

definition soft_wrap :: "real \<Rightarrow> real \<Rightarrow> Node \<Rightarrow> Env \<Rightarrow> Node \<times> Env" where
  "soft_wrap w h n env =
     (let (n, env) = (if x n < - 40
                      then let n = n\<lparr>x := w + 40\<rparr>; (r, env) = rand (- 200) 200 env
                           in (n\<lparr>orbitCenterX := x n + r\<rparr>, env)
                      else (n, env));
          (n, env) = (if x n > w + 40
                      then let n = n\<lparr>x := - 40\<rparr>; (r, env) = rand (- 200) 200 env
                           in (n\<lparr>orbitCenterX := x n + r\<rparr>, env)
                      else (n, env));
          (n, env) = (if y n < - 40
                      then let n = n\<lparr>y := h + 40\<rparr>; (r, env) = rand (- 200) 200 env
                           in (n\<lparr>orbitCenterY := y n + r\<rparr>, env)
                      else (n, env));
          (n, env) = (if y n > h + 40
                      then let n = n\<lparr>y := - 40\<rparr>; (r, env) = rand (- 200) 200 env
                           in (n\<lparr>orbitCenterY := y n + r\<rparr>, env)
                      else (n, env))
      in (n, env))"

text \<open>\<^verbatim>\<open>push\<close> followed by the conditional \<^verbatim>\<open>shift\<close> of lines 240 and 241.\<close>

definition trail_push :: "sample list \<Rightarrow> sample \<Rightarrow> sample list" where
  "trail_push tr s =
     (let tr = tr @ [s] in if length tr > trailKeep PHYS then tl tr else tr)"

definition push_trail :: "Node \<Rightarrow> Env \<Rightarrow> Node \<times> Env" where
  "push_trail n env =
     (let (t, env) = performance_now env
      in (n\<lparr>trail := trail_push (trail n) (x n, y n, t)\<rparr>, env))"

text \<open>One iteration of the loop of lines 180 to 242.\<close>

definition move_node :: "real \<Rightarrow> real \<Rightarrow> real \<Rightarrow> real \<Rightarrow> Node \<Rightarrow> Env \<Rightarrow> Node \<times> Env" where
  "move_node w h seed dt n env =
     (let (now, env) = performance_now env;
          time = now * 0.001;
          n = drift_centers seed time dt n;
          n = advance_phases dt n;
          n = seek_target dt n;
          n = jitter seed time dt n;
          (n, env) = rotate_node dt n env;
          (n, env) = soft_wrap w h n env
      in push_trail n env)"

fun move_nodes :: "real \<Rightarrow> real \<Rightarrow> real \<Rightarrow> real \<Rightarrow> Node list \<Rightarrow> Env \<Rightarrow> Node list \<times> Env" where
  "move_nodes w h seed dt [] env = ([], env)"
| "move_nodes w h seed dt (n # ns) env =
     (let (n, env) = move_node w h seed dt n env;
          (ns, env) = move_nodes w h seed dt ns env
      in (n # ns, env))"

subsection \<open>The tick\<close>

definition step :: "real \<Rightarrow> STATE \<Rightarrow> Env \<Rightarrow> STATE \<times> Env" where
  "step dt st env =
     (if length (nodes st) = 0 then (st, env)
      else let ns = reset_constellation (nodes st);
               ns = forces dt ns;
               (ns, env) = move_nodes (width st) (height st) (noiseSeed st) dt ns env
           in (rebuildLinks (st\<lparr>nodes := ns\<rparr>), env))"

subsection \<open>Renderer\<close>

text \<open>
  The drawing functions only call the 2D context; they are modelled as the list of
  context operations they issue, in order. A CSS colour string built by a template
  literal is kept as its components.
\<close>

datatype color = Rgba real real real real | Hsla real real real real

datatype paint = Color color | RadialGradient real real real real real real "(real \<times> color) list"

datatype canvas_op =
    FillStyle paint
  | StrokeStyle paint
  | ShadowColor color
  | ShadowBlur real
  | LineWidth real
  | Font string
  | TextAlign string
  | TextBaseline string
  | BeginPath
  | MoveTo real real
  | LineTo real real
  | QuadraticCurveTo real real real real
  | Arc real real real real real
  | Stroke
  | Fill
  | FillRect real real real real
  | FillText jsstring real real

definition drawBackground :: "STATE \<Rightarrow> canvas_op list" where
  "drawBackground st =
     [FillStyle (Color (Rgba 2 3 9 0.28)),
      FillRect 0 0 (width st) (height st),
      FillStyle (RadialGradient (width st * 0.6) (height st * 0.25) 0
                   (width st * 0.5) (height st * 0.7) (max (width st) (height st))
                   [(0, Rgba 30 42 85 0.05), (1, Rgba 5 7 12 0.0)]),
      FillRect 0 0 (width st) (height st)]"

text \<open>The body of the loop of \<^verbatim>\<open>drawLinks\<close>; \<^verbatim>\<open>v || 1\<close> is \<open>1\<close> when \<open>v\<close> is \<open>0\<close>.\<close>

definition draw_link :: "real \<Rightarrow> real \<Rightarrow> Node list \<Rightarrow> Link \<Rightarrow> canvas_op list" where
  "draw_link seed time ns L =
     (let a = ns ! li L;
          b = ns ! lj L;
          mx = (x a + x b) * 0.5;
          my = (y a + y b) * 0.5;
          dx = x b - x a;
          dy = y b - y a;
          d = hypot dx dy;
          s = sgn (noise2 seed (mx * 0.01) (my * 0.01) - 0.5);
          bendDir = (if s = 0 then 1 else s);
          nx = - dy / (if d = 0 then 1 else d);
          ny = dx / (if d = 0 then 1 else d);
          curve = curveBend PHYS
                    * min 1 ((d - minLinkDistance PHYS) / (maxLinkDistance PHYS - minLinkDistance PHYS));
          cx = mx + nx * bendDir * d * curve;
          cy = my + ny * bendDir * d * curve;
          alpha = clamp (1 - (d - minLinkDistance PHYS) / (maxLinkDistance PHYS - minLinkDistance PHYS))
                    0.05 0.9;
          hue' = (hue a + hue b) * 0.5;
          t = time * 0.001;
          ang = t * orbitFreq PHYS + (real (li L) * 0.7 + real (lj L) * 1.3);
          orbitR = orbitAmp PHYS * (0.5 + 0.5 * sin (t * 0.33 + ld L * 0.02));
          ox = mx + cos ang * orbitR;
          oy = my + sin ang * orbitR
      in [StrokeStyle (Color (Hsla hue' 80 70 (alpha * 0.12))),
          LineWidth 3,
          BeginPath,
          MoveTo (x a) (y a),
          QuadraticCurveTo cx cy (x b) (y b),
          Stroke,
          StrokeStyle (Color (Hsla hue' 90 75 (alpha * 0.7))),
          LineWidth 1.2,
          BeginPath,
          MoveTo (x a) (y a),
          QuadraticCurveTo cx cy (x b) (y b),
          Stroke,
          FillStyle (Color (Hsla hue' 100 85 (alpha * 0.9))),
          ShadowColor (Hsla hue' 100 60 (alpha * 0.6)),
          ShadowBlur 8,
          BeginPath,
          Arc ox oy 1.6 0 (pi * 2),
          Fill,
          ShadowBlur 0])"

definition drawLinks :: "real \<Rightarrow> STATE \<Rightarrow> canvas_op list" where
  "drawLinks time st = concat (map (draw_link (noiseSeed st) time (nodes st)) (links st))"

text \<open>The body of the loop of \<^verbatim>\<open>drawNodes\<close>: trail, glow, label.\<close>

definition draw_trail_segment :: "Node \<Rightarrow> nat \<Rightarrow> canvas_op list" where
  "draw_trail_segment n i =
     (let p0 = trail n ! (i - 1);
          p1 = trail n ! i;
          t = real i / real (length (trail n));
          alpha = (t * 0.6) * (1 - trailFade PHYS) + 0.05
      in [StrokeStyle (Color (Hsla (hue n) 90 (65 - t * 20) alpha)),
          LineWidth (lerp 0.2 1.0 t),
          BeginPath,
          MoveTo (fst p0) (fst (snd p0)),
          LineTo (fst p1) (fst (snd p1)),
          Stroke])"

definition draw_node :: "Node \<Rightarrow> canvas_op list" where
  "draw_node n =
     (if length (trail n) > 1
      then concat (map (draw_trail_segment n) [1 ..< length (trail n)]) else [])
     @ [ShadowColor (Hsla (hue n) 100 70 0.6),
        ShadowBlur 12,
        FillStyle (Color (Hsla (hue n) 100 86 0.95)),
        BeginPath,
        Arc (x n) (y n) (radius n * 0.28) 0 (pi * 2),
        Fill,
        ShadowBlur 0]
     @ (if inConstellation n
        then [Font ''600 14px Inter, system-ui, -apple-system, Segoe UI, Roboto, Helvetica, Arial'',
              TextAlign ''center'',
              TextBaseline ''middle'',
              FillStyle (Color (Rgba 230 238 255 0.95)),
              ShadowColor (Hsla (hue n) 100 60 0.8),
              ShadowBlur 10,
              FillText (text n) (x n) (y n - radius n * 0.9),
              ShadowBlur 0]
        else [])"

definition drawNodes :: "real \<Rightarrow> STATE \<Rightarrow> canvas_op list" where
  "drawNodes time st = concat (map draw_node (nodes st))"

subsection \<open>Frame Driver\<close>

text \<open>
  One call of \<^verbatim>\<open>frame(t)\<close>, up to the request for the next one. The argument is a
  number, so \<^verbatim>\<open>t || 0\<close> is \<open>t\<close>; \<^verbatim>\<open>STATE.lastTime\<close> is falsy exactly when it is \<open>0\<close>.
  The result is the new state, the environment and the operations drawn.
\<close>

definition frame :: "real \<Rightarrow> STATE \<Rightarrow> Env \<Rightarrow> STATE \<times> Env \<times> canvas_op list" where
  "frame t st env =
     (let time = t;
          dt = (if lastTime st \<noteq> 0 then clamp ((time - lastTime st) / 1000) 0 0.033 else 0.016);
          st = st\<lparr>lastTime := time\<rparr>;
          background = drawBackground st;
          (st, env) = step dt st env
      in (st, env, background @ drawLinks time st @ drawNodes time st))"

subsection \<open>The states the program reaches\<close>

text \<open>
  Start-up: the \<^verbatim>\<open>STATE\<close> literal, whose seed is the first random draw, followed by the
  first call of \<^verbatim>\<open>resize\<close>. Afterwards the page resizes, draws frames and submits the
  form, one event at a time.
\<close>

definition boot :: "real \<Rightarrow> real \<Rightarrow> Env \<Rightarrow> STATE \<times> Env" where
  "boot innerWidth innerHeight env =
     (let (r, env) = Math_random env;
          st = \<lparr> width = 0, height = 0, nodes = [], links = [], lastTime = 0,
                 noiseSeed = r * 1000 \<rparr>
      in (resize innerWidth innerHeight st, env))"

inductive reachable :: "STATE \<Rightarrow> Env \<Rightarrow> bool" where
  at_boot: "random_ok env \<Longrightarrow> boot w h env = (st, env') \<Longrightarrow> reachable st env'"
| after_resize: "reachable st env \<Longrightarrow> reachable (resize w h st) env"
| after_frame: "reachable st env \<Longrightarrow> frame t st env = (st', env', ops) \<Longrightarrow> reachable st' env'"
| after_submit: "reachable st env \<Longrightarrow> form_submit input_value st env = (input_value', st', env')
                  \<Longrightarrow> reachable st' env'"

subsection \<open>Sample inputs\<close>

text \<open>An environment whose every random draw is \<open>1/2\<close> and whose clock reads \<open>0\<close>, and the
  node that the constructor builds in it for the text \<^verbatim>\<open>"a"\<close>.\<close>

definition env0 :: Env where
  "env0 = \<lparr> randoms = sconst 0.5, clock = sconst 0 \<rparr>"

definition fresh :: "real \<Rightarrow> real \<Rightarrow> Node" where
  "fresh px py = fst (new_Node [0x61] px py env0)"

definition state_of :: "Node list \<Rightarrow> STATE" where
  "state_of ns = \<lparr> width = 800, height = 600, nodes = ns, links = [], lastTime = 0, noiseSeed = 7 \<rparr>"

text \<open>The invariant of the constants of a node.\<close>

definition node_constants_ok :: "Node \<Rightarrow> bool" where
  "node_constants_ok n \<longleftrightarrow>
     0.6 \<le> mass n \<and> mass n \<le> 1.6 \<and> 215 \<le> hue n \<and> hue n \<le> 235 \<and> radius n = 8 + mass n * 3.5"

text \<open>A node with its velocity fields blanked: what of a node is not velocity.\<close>

definition erase_v :: "Node \<Rightarrow> Node" where
  "erase_v n = n\<lparr>vx := Undefined, vy := Undefined\<rparr>"

text \<open>The test of \<open>pair_update\<close> for applying a force to a pair, attraction or repulsion;
  and a node list none of whose pairs passes it.\<close>

definition force_range :: "Node \<Rightarrow> Node \<Rightarrow> bool" where
  "force_range a b =
     (let dx = x b - x a;
          dy = y b - y a;
          dist = sqrt (dx * dx + dy * dy) + 0.000001
      in dist < maxLinkDistance PHYS * 1.25
         \<and> (dist > minLinkDistance PHYS \<or> dist < repulsionDistance PHYS))"

definition no_force :: "Node list \<Rightarrow> bool" where
  "no_force ns = (\<forall>i<length ns. \<forall>j<length ns. i < j \<longrightarrow> \<not> force_range (ns ! i) (ns ! j))"

text \<open>A node that none of the four tests of the soft wrap moves.\<close>

definition in_margin :: "real \<Rightarrow> real \<Rightarrow> Node \<Rightarrow> bool" where
  "in_margin w h n \<longleftrightarrow> - 40 \<le> x n \<and> x n \<le> w + 40 \<and> - 40 \<le> y n \<and> y n \<le> h + 40"

text \<open>A node whose velocity components are \<^verbatim>\<open>undefined\<close> or \<^verbatim>\<open>NaN\<close>.\<close>

definition velocity_not_numeric :: "Node \<Rightarrow> bool" where
  "velocity_not_numeric n \<longleftrightarrow>
     (vx n = Undefined \<or> vx n = NaN) \<and> (vy n = Undefined \<or> vy n = NaN)"

section \<open>Properties\<close>

subsection \<open>The link list as a comprehension\<close>

lemma link_pair_append: "link_pair ns i j acc = acc @ link_pair ns i j []"
  by (simp add: link_pair_def Let_def)

lemma fold_link_pair:
  "fold (link_pair ns i) js acc = acc @ concat (map (\<lambda>j. link_pair ns i j []) js)"
proof (induction js arbitrary: acc)
  case Nil
  show ?case by simp
next
  case (Cons j js)
  have "fold (link_pair ns i) (j # js) acc = fold (link_pair ns i) js (link_pair ns i j acc)"
    by simp
  also have "\<dots> = link_pair ns i j acc @ concat (map (\<lambda>j. link_pair ns i j []) js)"
    by (rule Cons.IH)
  also have "link_pair ns i j acc = acc @ link_pair ns i j []"
    by (rule link_pair_append)
  finally show ?case by simp
qed

lemma fold_rows:
  "fold (\<lambda>i. fold (link_pair ns i) (row i)) rows acc
     = acc @ concat (map (\<lambda>i. concat (map (\<lambda>j. link_pair ns i j []) (row i))) rows)"
proof (induction rows arbitrary: acc)
  case Nil
  show ?case by simp
next
  case (Cons i rows)
  have "fold (\<lambda>i. fold (link_pair ns i) (row i)) (i # rows) acc
          = fold (\<lambda>i. fold (link_pair ns i) (row i)) rows (fold (link_pair ns i) (row i) acc)"
    by simp
  also have "\<dots> = fold (link_pair ns i) (row i) acc
                 @ concat (map (\<lambda>i. concat (map (\<lambda>j. link_pair ns i j []) (row i))) rows)"
    by (rule Cons.IH)
  also have "fold (link_pair ns i) (row i) acc = acc @ concat (map (\<lambda>j. link_pair ns i j []) (row i))"
    by (rule fold_link_pair)
  finally show ?case by simp
qed

lemma links_rebuildLinks:
  "links (rebuildLinks st) =
     concat (map (\<lambda>i. concat (map (\<lambda>j. link_pair (nodes st) i j []) [i + 1 ..< length (nodes st)]))
       [0 ..< length (nodes st)])"
  by (simp add: rebuildLinks_def Let_def fold_rows)

lemma in_concat_mapI: "r \<in> set rows \<Longrightarrow> l \<in> set (g r) \<Longrightarrow> l \<in> set (concat (map g rows))"
  by auto

lemma set_link_pair:
  "l \<in> set (link_pair ns i j []) \<longleftrightarrow>
     node_dist ns i j < 120 \<and> l = \<lparr> li = i, lj = j, ld = node_dist ns i j \<rparr>"
  by (auto simp: link_pair_def Let_def node_dist_def PHYS_def)

lemma in_links_iff:
  "l \<in> set (links (rebuildLinks st)) \<longleftrightarrow>
     li l < lj l \<and> lj l < length (nodes st) \<and> node_dist (nodes st) (li l) (lj l) < 120
       \<and> ld l = node_dist (nodes st) (li l) (lj l)"
proof
  assume "l \<in> set (links (rebuildLinks st))"
  then show "li l < lj l \<and> lj l < length (nodes st) \<and> node_dist (nodes st) (li l) (lj l) < 120
       \<and> ld l = node_dist (nodes st) (li l) (lj l)"
    by (auto simp: links_rebuildLinks set_link_pair)
next
  assume r: "li l < lj l \<and> lj l < length (nodes st) \<and> node_dist (nodes st) (li l) (lj l) < 120
       \<and> ld l = node_dist (nodes st) (li l) (lj l)"
  then have "l \<in> set (link_pair (nodes st) (li l) (lj l) [])"
    by (simp add: set_link_pair)
  moreover have "lj l \<in> set [li l + 1 ..< length (nodes st)]" using r by simp
  ultimately have "l \<in> set (concat (map (\<lambda>j. link_pair (nodes st) (li l) j [])
                      [li l + 1 ..< length (nodes st)]))"
    by (rule in_concat_mapI [rotated])
  moreover have "li l \<in> set [0 ..< length (nodes st)]" using r by simp
  ultimately show "l \<in> set (links (rebuildLinks st))"
    unfolding links_rebuildLinks by (rule in_concat_mapI [rotated])
qed

lemma distinct_concat_keyed:
  assumes "distinct rows"
    and "\<And>r. r \<in> set rows \<Longrightarrow> distinct (map key (g r))"
    and "\<And>r l. r \<in> set rows \<Longrightarrow> l \<in> set (g r) \<Longrightarrow> p (key l) = r"
  shows "distinct (map key (concat (map g rows)))"
  using assms
proof (induction rows)
  case Nil
  show ?case by simp
next
  case (Cons r rows)
  have tl: "distinct (map key (concat (map g rows)))"
    using Cons by simp
  have disj: "key ` set (g r) \<inter> key ` (\<Union>r'\<in>set rows. set (g r')) = {}"
  proof -
    have "r \<notin> set rows" using Cons.prems(1) by simp
    moreover have "\<And>l. l \<in> set (g r) \<Longrightarrow> p (key l) = r"
      using Cons.prems(3) by simp
    moreover have "\<And>r' l. r' \<in> set rows \<Longrightarrow> l \<in> set (g r') \<Longrightarrow> p (key l) = r'"
      using Cons.prems(3) by simp
    ultimately show ?thesis by fastforce
  qed
  from tl disj Cons.prems(2) [of r] show ?case
    by (simp add: image_UN)
qed

lemma distinct_link_keys:
  "distinct (map (\<lambda>l. (li l, lj l)) (links (rebuildLinks st)))"
  unfolding links_rebuildLinks
proof (rule distinct_concat_keyed [where p = fst])
  show "distinct [0 ..< length (nodes st)]" by simp
next
  fix r assume "r \<in> set [0 ..< length (nodes st)]"
  show "distinct (map (\<lambda>l. (li l, lj l))
          (concat (map (\<lambda>j. link_pair (nodes st) r j []) [r + 1 ..< length (nodes st)])))"
  proof (rule distinct_concat_keyed [where p = snd])
    show "distinct [r + 1 ..< length (nodes st)]" by simp
  next
    fix j
    show "distinct (map (\<lambda>l. (li l, lj l)) (link_pair (nodes st) r j []))"
      by (simp add: link_pair_def Let_def)
  next
    fix j l assume "l \<in> set (link_pair (nodes st) r j [])"
    then show "snd (li l, lj l) = j"
      by (simp add: set_link_pair)
  qed
next
  fix r l
  assume "l \<in> set (concat (map (\<lambda>j. link_pair (nodes st) r j []) [r + 1 ..< length (nodes st)]))"
  then show "fst (li l, lj l) = r"
    by (auto simp: set_link_pair)
qed

lemma node_dist_commute: "node_dist ns i j = node_dist ns j i"
proof -
  have "(a - b) * (a - b) = (b - a) * (b - a)" for a b :: real
    by (simp add: algebra_simps)
  then show ?thesis
    by (simp add: node_dist_def hypot_def)
qed

lemma has_link_ordered:
  assumes "i < j" "j < length (nodes st)"
  shows "has_link (links (rebuildLinks st)) i j \<longleftrightarrow> node_dist (nodes st) i j < 120"
proof
  assume "has_link (links (rebuildLinks st)) i j"
  then obtain l where l: "l \<in> set (links (rebuildLinks st))"
    and ends: "(li l = i \<and> lj l = j) \<or> (li l = j \<and> lj l = i)"
    unfolding has_link_def by blast
  from l have "li l < lj l" and "node_dist (nodes st) (li l) (lj l) < 120"
    by (simp_all add: in_links_iff)
  with ends assms(1) show "node_dist (nodes st) i j < 120"
    by auto
next
  assume close: "node_dist (nodes st) i j < 120"
  let ?l = "\<lparr> li = i, lj = j, ld = node_dist (nodes st) i j \<rparr>"
  have "?l \<in> set (links (rebuildLinks st))"
    using assms close by (simp add: in_links_iff)
  moreover have "li ?l = i \<and> lj ?l = j" by simp
  ultimately show "has_link (links (rebuildLinks st)) i j"
    unfolding has_link_def by blast
qed

lemma has_link_commute: "has_link ls i j = has_link ls j i"
  unfolding has_link_def by blast

lemma has_link_iff:
  assumes "i < length (nodes st)" "j < length (nodes st)" "i \<noteq> j"
  shows "has_link (links (rebuildLinks st)) i j \<longleftrightarrow> node_dist (nodes st) i j < 120"
proof (cases "i < j")
  case True
  then show ?thesis using assms by (simp add: has_link_ordered)
next
  case False
  then have "j < i" using assms by simp
  then have "has_link (links (rebuildLinks st)) j i \<longleftrightarrow> node_dist (nodes st) j i < 120"
    using assms by (simp add: has_link_ordered)
  then show ?thesis
    by (simp add: has_link_commute [of _ i j] node_dist_commute [of _ i j])
qed

subsection \<open>NoiseSource in exact arithmetic\<close>

lemma noise2_exact_range: "0 \<le> noise2 seed px py \<and> noise2 seed px py < 1"
proof -
  define s where "s = sin (px * 12.9898 + py * 78.233 + seed) * 43758.5453"
  have val: "noise2 seed px py = s - of_int \<lfloor>s\<rfloor>"
    unfolding noise2_def s_def Let_def ..
  have lo: "0 \<le> s - of_int \<lfloor>s\<rfloor>"
    by linarith
  have hi: "s - of_int \<lfloor>s\<rfloor> < 1"
    by linarith
  from lo hi show ?thesis
    unfolding val by blast
qed

subsection \<open>Rounding to a double\<close>

lemma round_even_bounds:
  "of_int (round_even q) \<le> q + 1 / 2" "q - 1 / 2 \<le> of_int (round_even q)"
  unfolding round_even_def Let_def by (auto; linarith)+

lemma round_even_nonneg: "0 \<le> q \<Longrightarrow> 0 \<le> round_even q"
  unfolding round_even_def Let_def by (auto simp: zero_le_floor)

lemma round_even_le_int:
  assumes "q \<le> of_int n"
  shows "round_even q \<le> n"
proof -
  have "of_int (round_even q) < (of_int n + 1 :: real)"
    using round_even_bounds(1) [of q] assms by linarith
  then show ?thesis by linarith
qed

lemma round_even_ge_int:
  assumes "of_int n \<le> q"
  shows "n \<le> round_even q"
proof -
  have "(of_int n - 1 :: real) < of_int (round_even q)"
    using round_even_bounds(2) [of q] assms by linarith
  then show ?thesis by linarith
qed

lemma round_even_abs: "\<bar>of_int (round_even q) :: real\<bar> \<le> 2 * \<bar>q\<bar>"
proof (cases "\<bar>q\<bar> < 1 / 2")
  case True
  then have "round_even q \<le> 0" "0 \<le> round_even q"
    using round_even_le_int [of q 1] round_even_ge_int [of "-1" q]
      round_even_bounds [of q] by (simp_all; linarith)+
  then show ?thesis by simp
next
  case False
  then show ?thesis
    using round_even_bounds [of q] by (simp add: abs_if split: if_splits; linarith)
qed


lemma rnd_abs: "\<bar>rnd r\<bar> \<le> 2 * \<bar>r\<bar>"
proof (cases "r = 0")
  case True
  then show ?thesis by (simp add: rnd_def)
next
  case False
  let ?U = "2 powr of_int (ulp_exponent r) :: real"
  have U: "0 < ?U" by simp
  have "\<bar>rnd r\<bar> = \<bar>of_int (round_even (r / ?U))\<bar> * ?U"
    using False by (simp add: rnd_def abs_mult)
  also have "\<dots> \<le> (2 * \<bar>r / ?U\<bar>) * ?U"
    using round_even_abs [of "r / ?U"] U by (intro mult_right_mono) simp_all
  also have "\<dots> = 2 * \<bar>r\<bar>"
    using U by (simp add: abs_mult)
  finally show ?thesis .
qed

lemma rnd_unit_interval:
  assumes "0 \<le> r" "r < 1"
  shows "0 \<le> rnd r" "rnd r \<le> 1"
proof -
  show "0 \<le> rnd r"
    using assms(1) round_even_nonneg [of "r / 2 powr of_int (ulp_exponent r)"]
    by (simp add: rnd_def)
  show "rnd r \<le> 1"
  proof (cases "r = 0")
    case True
    then show ?thesis by (simp add: rnd_def)
  next
    case False
    then have pos: "0 < r" using assms(1) by simp
    define m where "m = max \<lfloor>log 2 \<bar>r\<bar>\<rfloor> (- 1022)"
    let ?U = "2 powr of_int (m - 52) :: real"
    have E: "ulp_exponent r = m - 52"
      by (simp add: ulp_exponent_def m_def)
    have "log 2 r < 0"
      using pos assms(2) by simp
    then have "\<lfloor>log 2 \<bar>r\<bar>\<rfloor> \<le> - 1"
      using pos by (simp add: floor_le_iff)
    then have m: "m \<le> - 1"
      by (simp add: m_def)
    have "log 2 r < of_int (\<lfloor>log 2 r\<rfloor> + 1)"
      by linarith
    also have "\<dots> \<le> of_int (m + 1)"
      using pos by (simp add: m_def)
    finally have r_lt: "r < 2 powr of_int (m + 1)"
      using pos by (simp add: less_powr_iff)
    define K :: real where "K = 2 powr 53"
    have K: "K = of_int (2 ^ 53)"
      by (simp add: K_def powr_numeral)
    have "of_int (m + 1) = of_int (m - 52) + (53::real)"
      by simp
    then have split: "2 powr of_int (m + 1) = ?U * K"
      unfolding K_def by (simp only: powr_add)
    have U: "0 < ?U" by simp
    have "r / ?U < K"
      using r_lt U unfolding split by (simp add: divide_less_eq mult.commute)
    then have "round_even (r / ?U) \<le> 2 ^ 53"
      unfolding K by (intro round_even_le_int) simp
    then have "(of_int (round_even (r / ?U)) :: real) \<le> of_int (2 ^ 53)"
      by (simp only: of_int_le_iff)
    then have "of_int (round_even (r / ?U)) * ?U \<le> K * ?U"
      unfolding K [symmetric] using U by (intro mult_right_mono) simp_all
    then have "rnd r \<le> K * ?U"
      using False by (simp add: rnd_def E)
    also have "\<dots> = 2 powr of_int (m + 1)"
      unfolding split by simp
    also have "\<dots> \<le> 2 powr 0"
      using m by (intro powr_mono) simp_all
    finally show ?thesis by simp
  qed
qed

lemma rnd_ge_half:
  assumes "1 \<le> r"
  shows "r / 2 \<le> rnd r"
proof -
  have pos: "0 < r" using assms by simp
  define e where "e = \<lfloor>log 2 \<bar>r\<bar>\<rfloor>"
  have "0 \<le> log 2 r"
    using assms by simp
  then have e0: "0 \<le> e"
    using pos by (simp add: e_def)
  then have E: "ulp_exponent r = e - 52"
    by (simp add: ulp_exponent_def e_def)
  let ?U = "2 powr of_int (e - 52) :: real"
  have "of_int e \<le> log 2 r"
    using pos by (simp add: e_def)
  then have a: "2 powr of_int e \<le> r"
    using pos by (simp add: powr_le_iff)
  have b: "?U \<le> 2 powr of_int e"
    by (intro powr_mono) simp_all
  have U: "?U \<le> r" "0 < ?U"
    using order_trans [OF b a] by simp_all
  have "r / ?U - 1 / 2 \<le> of_int (round_even (r / ?U))"
    by (rule round_even_bounds)
  then have "(r / ?U - 1 / 2) * ?U \<le> of_int (round_even (r / ?U)) * ?U"
    using U(2) by (intro mult_right_mono) simp_all
  then have "r - ?U / 2 \<le> rnd r"
    using pos U(2) by (simp add: rnd_def E algebra_simps)
  with U(1) show ?thesis by linarith
qed


lemma max_double_ge: "2 ^ 1023 \<le> max_double"
proof -
  have "(2::real) ^ 971 \<le> 2 ^ 1023"
    by (rule power_increasing) simp_all
  moreover have "(2::real) ^ 1024 = 2 * 2 ^ 1023"
    by simp
  ultimately show ?thesis
    unfolding max_double_def by linarith
qed

lemma max_double_lt: "max_double < 2 ^ 1024"
  unfolding max_double_def by simp

lemma to_double_small:
  assumes "\<bar>r\<bar> \<le> 2 ^ 1022"
  shows "to_double r = Finite (rnd r)"
proof -
  have "\<bar>rnd r\<bar> \<le> 2 * 2 ^ 1022"
    using rnd_abs [of r] assms by linarith
  also have "\<dots> = (2::real) ^ 1023"
    by simp
  finally have "\<bar>rnd r\<bar> \<le> max_double"
    using max_double_ge by linarith
  then show ?thesis
    by (simp add: to_double_def Let_def abs_le_iff not_less)
qed

lemma noise2_double_finite:
  assumes "sine_argument seed px py = Finite a"
  shows "\<exists>v. noise2_double seed px py = Finite v \<and> 0 \<le> v \<and> v \<le> 1"
proof -
  define t where "t = rnd (sin a)"
  define c where "c = rnd 43758.5453"
  define s where "s = rnd (t * c)"
  have "\<bar>sin a\<bar> \<le> 1" by simp
  then have t: "\<bar>t\<bar> \<le> 2"
    using rnd_abs [of "sin a"] unfolding t_def by linarith
  have c: "\<bar>c\<bar> \<le> 2 ^ 17"
    using rnd_abs [of "43758.5453"] unfolding c_def by simp
  have "\<bar>t * c\<bar> \<le> 2 * 2 ^ 17"
    unfolding abs_mult using t c by (intro mult_mono) simp_all
  then have tc: "\<bar>t * c\<bar> \<le> 2 ^ 18"
    by simp
  have "(2::real) ^ 18 \<le> 2 ^ 1022"
    by (rule power_increasing) simp_all
  then have prod: "d_mul (Finite t) (Finite c) = Finite s"
    using tc unfolding s_def by (simp add: to_double_small)
  define v where "v = rnd (s - of_int \<lfloor>s\<rfloor>)"
  have frac: "0 \<le> s - of_int \<lfloor>s\<rfloor>" "s - of_int \<lfloor>s\<rfloor> < 1"
    by linarith+
  then have v: "0 \<le> v" "v \<le> 1"
    unfolding v_def by (rule rnd_unit_interval)+
  have "\<bar>s - of_int \<lfloor>s\<rfloor>\<bar> \<le> 2 ^ 1022"
    using frac by simp
  then have sub: "d_sub (Finite s) (d_floor (Finite s)) = Finite v"
    unfolding v_def by (simp add: d_sub_def to_double_small)
  have "noise2_double seed px py
      = (let s = d_mul (Finite t) (Finite c) in d_sub s (d_floor s))"
    unfolding noise2_double_def assms d_sin.simps t_def c_def ..
  also have "\<dots> = Finite v"
    unfolding prod Let_def by (rule sub)
  finally show ?thesis
    using v by blast
qed

lemma noise2_double_not_finite:
  assumes "\<And>a. sine_argument seed px py \<noteq> Finite a"
  shows "noise2_double seed px py = NotANumber"
proof -
  have "d_sin (sine_argument seed px py) = NotANumber"
  proof (cases "sine_argument seed px py")
    case (Finite a)
    with assms show ?thesis by blast
  qed simp_all
  then show ?thesis
    by (simp add: noise2_double_def d_sub_def)
qed

lemma sin_ge_half_arg:
  fixes w :: real
  assumes "0 \<le> w" "w \<le> 1 / 2"
  shows "w / 2 \<le> sin w"
proof -
  have "sin 0 - 0 / 2 \<le> sin w - w / 2"
  proof (rule DERIV_nonneg_imp_nondecreasing [where f = "\<lambda>u. sin u - u / 2"])
    show "0 \<le> w" by (rule assms)
  next
    fix u :: real
    assume u: "0 \<le> u" "u \<le> w"
    have "u \<le> pi / 3"
      using u assms pi_ge_two by linarith
    moreover have "pi / 3 \<le> pi"
      using pi_ge_two by linarith
    ultimately have "cos (pi / 3) \<le> cos u"
      using u(1) by (intro cos_monotone_0_pi_le)
    then have "0 \<le> cos u - 1 / 2"
      by (simp add: cos_60)
    moreover have "((\<lambda>u. sin u - u / 2) has_real_derivative cos u - 1 / 2) (at u)"
      by (auto intro!: derivative_eq_intros)
    ultimately show "\<exists>y. ((\<lambda>u. sin u - u / 2) has_real_derivative y) (at u) \<and> 0 \<le> y"
      by blast
  qed
  then show ?thesis by simp
qed

lemma sin_small_negative:
  fixes z :: real
  assumes "- (1 / 2) \<le> z" "z \<le> 0"
  shows "z \<le> sin z" "sin z \<le> z / 2"
proof -
  have "sin (- z) \<le> - z"
    using assms by (intro sin_x_le_x) simp
  then show "z \<le> sin z" by simp
  have "(- z) / 2 \<le> sin (- z)"
    using assms by (intro sin_ge_half_arg) simp_all
  then show "sin z \<le> z / 2" by simp
qed

lemma rnd_negative_normal:
  assumes "r \<le> - (2 powr - 1022)"
  shows "rnd r \<le> r / 2" "2 * r \<le> rnd r"
proof -
  have neg: "r < 0"
    using assms powr_gt_zero [of 2 "- 1022"] by linarith
  show "2 * r \<le> rnd r"
    using rnd_abs [of r] neg by (simp add: abs_if split: if_splits)
  define e where "e = \<lfloor>log 2 \<bar>r\<bar>\<rfloor>"
  have "2 powr - 1022 \<le> \<bar>r\<bar>"
    using assms neg by simp
  then have "- 1022 \<le> log 2 \<bar>r\<bar>"
    using neg by (simp add: powr_le_iff)
  then have "- 1022 \<le> e"
    unfolding e_def by (simp add: le_floor_iff)
  then have E: "ulp_exponent r = e - 52"
    by (simp add: ulp_exponent_def e_def)
  let ?U = "2 powr of_int (e - 52) :: real"
  have "of_int e \<le> log 2 \<bar>r\<bar>"
    by (simp add: e_def)
  then have a: "2 powr of_int e \<le> \<bar>r\<bar>"
    using neg by (simp add: powr_le_iff)
  have b: "?U \<le> 2 powr of_int e"
    by (intro powr_mono) simp_all
  have U: "?U \<le> - r" "0 < ?U"
    using order_trans [OF b a] neg by simp_all
  have "of_int (round_even (r / ?U)) \<le> r / ?U + 1 / 2"
    by (rule round_even_bounds)
  then have "of_int (round_even (r / ?U)) * ?U \<le> (r / ?U + 1 / 2) * ?U"
    using U(2) by (intro mult_right_mono) simp_all
  then have "rnd r \<le> r + ?U / 2"
    using neg U(2) by (simp add: rnd_def E algebra_simps)
  with U(1) show "rnd r \<le> r / 2" by linarith
qed

lemma rnd_just_below_one:
  assumes "1 - 1 / 2 ^ 55 \<le> r" "r < 1"
  shows "rnd r = 1"
proof -
  have half: "1 / 2 \<le> r"
  proof -
    have "(1::real) / 2 ^ 55 \<le> 1 / 2 ^ 1"
      by (intro divide_left_mono power_increasing) simp_all
    then show ?thesis using assms(1) by simp
  qed
  then have pos: "0 < r" by simp
  have "- 1 \<le> log 2 r"
    using half pos by (simp add: le_log_iff powr_minus inverse_eq_divide)
  moreover have "log 2 r < 0"
    using pos assms(2) by simp
  ultimately have "\<lfloor>log 2 \<bar>r\<bar>\<rfloor> = - 1"
    using pos by (simp add: floor_eq_iff)
  then have E: "ulp_exponent r = - 53"
    by (simp add: ulp_exponent_def)
  have U: "2 powr of_int (- 53) = (1 / 2 ^ 53 :: real)"
    by (simp add: powr_minus powr_numeral inverse_eq_divide)
  define q where "q = r * 2 ^ 53"
  have q: "2 ^ 53 - 1 / 4 \<le> q" "q < 2 ^ 53"
  proof -
    have "(1 - 1 / 2 ^ 55) * 2 ^ 53 \<le> r * 2 ^ 53"
      using assms(1) by (intro mult_right_mono) simp_all
    then show "2 ^ 53 - 1 / 4 \<le> q"
      by (simp add: q_def algebra_simps)
    show "q < 2 ^ 53"
      using assms(2) by (simp add: q_def)
  qed
  have fl: "\<lfloor>q\<rfloor> = 2 ^ 53 - 1"
    using q by (intro floor_unique) simp_all
  have re: "round_even q = 2 ^ 53"
    using q unfolding round_even_def Let_def fl by simp
  have "r / (1 / 2 ^ 53) = q"
    by (simp add: q_def)
  moreover have "rnd r = of_int (round_even (r / 2 powr of_int (- 53))) * 2 powr of_int (- 53)"
    using pos unfolding rnd_def E by simp
  ultimately have "rnd r = of_int (2 ^ 53) * (1 / 2 ^ 53)"
    unfolding U by (simp only: re)
  then show ?thesis by simp
qed

subsection \<open>NoiseSource on doubles\<close>

lemma noise2_double_one:
  "noise2_double (Finite 0) (Finite (- (1 / 2 ^ 90))) (Finite 0) = Finite 1"
proof -
  define eps :: real where "eps = 1 / 2 ^ 90"
  define delta :: real where "delta = 2 powr - 1022"
  have eps: "0 < eps" "1024 * eps \<le> 1"
    by (simp_all add: eps_def)
  have delta: "delta \<le> eps / 8"
  proof -
    have "delta = 1 / 2 ^ 1022"
      by (simp add: delta_def powr_minus powr_numeral inverse_eq_divide)
    also have "\<dots> \<le> 1 / 2 ^ 93"
      by (intro divide_left_mono power_increasing) simp_all
    also have "\<dots> = eps / 8"
      by (simp add: eps_def)
    finally show ?thesis .
  qed
  have small: "to_double r = Finite (rnd r)" if "- 1 \<le> r" "r \<le> 1" for r
  proof -
    have "(1::real) \<le> 2 ^ 1022"
      by simp
    with that have "\<bar>r\<bar> \<le> 2 ^ 1022"
      by (simp add: abs_if)
    then show ?thesis by (rule to_double_small)
  qed
  define c1 where "c1 = rnd 12.9898"
  have c1: "6 \<le> c1" "c1 \<le> 26"
    using rnd_ge_half [of "12.9898"] rnd_abs [of "12.9898"] by (simp_all add: c1_def)
  define p1 where "p1 = - eps * c1"
  have p1: "- 26 * eps \<le> p1" "p1 \<le> - 6 * eps"
    using c1 eps(1) mult_left_mono [of c1 26 eps] mult_left_mono [of 6 c1 eps]
    by (simp_all add: p1_def mult.commute)
  define z1 where "z1 = rnd p1"
  have z1: "- 52 * eps \<le> z1" "z1 \<le> - 3 * eps"
    using rnd_negative_normal [of p1] p1 delta eps(1) unfolding z1_def delta_def by linarith+
  have "to_double p1 = Finite z1"
    unfolding z1_def using p1 eps by (intro small; linarith)
  then have m1: "d_mul (Finite (- eps)) (Finite c1) = Finite z1"
    by (simp add: p1_def)
  have m2: "d_mul (Finite 0) (Finite (rnd 78.233)) = Finite 0"
    using small [of 0] by (simp add: rnd_def)
  define z2 where "z2 = rnd z1"
  have z2: "- 104 * eps \<le> z2" "z2 \<le> - eps"
    using rnd_negative_normal [of z1] z1 delta eps(1) unfolding z2_def delta_def by linarith+
  have "to_double z1 = Finite z2"
    unfolding z2_def using z1 eps by (intro small; linarith)
  then have a1: "d_add (Finite z1) (Finite 0) = Finite z2"
    by simp
  define z3 where "z3 = rnd z2"
  have z3: "- 208 * eps \<le> z3" "z3 \<le> - eps / 2"
    using rnd_negative_normal [of z2] z2 delta eps(1) unfolding z3_def delta_def by linarith+
  have "to_double z2 = Finite z3"
    unfolding z3_def using z2 eps by (intro small; linarith)
  then have a2: "d_add (Finite z2) (Finite 0) = Finite z3"
    by simp
  have arg: "sine_argument (Finite 0) (Finite (- eps)) (Finite 0) = Finite z3"
    unfolding sine_argument_def c1_def [symmetric] m1 m2 a1 a2 ..
  define t where "t = rnd (sin z3)"
  have sn: "z3 \<le> sin z3" "sin z3 \<le> z3 / 2"
    using z3 eps by (intro sin_small_negative; linarith)+
  have t: "- 416 * eps \<le> t" "t \<le> - eps / 8"
    using rnd_negative_normal [of "sin z3"] sn z3 delta eps(1) unfolding t_def delta_def
    by linarith+
  define c3 where "c3 = rnd 43758.5453"
  have c3: "16384 \<le> c3" "c3 \<le> 131072"
    using rnd_ge_half [of "43758.5453"] rnd_abs [of "43758.5453"] by (simp_all add: c3_def)
  define p where "p = t * c3"
  define B :: real where "B = 2 ^ 26 * eps"
  have B: "B \<le> 1" "2 * B = 1 / 2 ^ 63"
    by (simp_all add: B_def eps_def)
  have p: "- B \<le> p" "p \<le> - eps"
  proof -
    have "(- t) * c3 \<le> (416 * eps) * 131072"
      using t c3 eps(1) by (intro mult_mono) simp_all
    then show "- B \<le> p"
      using eps(1) by (simp add: p_def B_def)
    have "(eps / 8) * 16384 \<le> (- t) * c3"
      using t c3 eps(1) by (intro mult_mono) simp_all
    then show "p \<le> - eps"
      using eps(1) by (simp add: p_def)
  qed
  define s where "s = rnd p"
  have "p \<le> - (2 powr - 1022)"
    using p(2) delta eps(1) unfolding delta_def by linarith
  then have "s \<le> p / 2" "2 * p \<le> s"
    unfolding s_def by (rule rnd_negative_normal)+
  then have s: "- (1 / 2 ^ 63) \<le> s" "s < 0"
    using p eps(1) B(2) by linarith+
  have "to_double p = Finite s"
    unfolding s_def using p eps(1) B(1) by (intro small; linarith)
  then have m3: "d_mul (Finite t) (Finite c3) = Finite s"
    by (simp add: p_def)
  have "(1::real) / 2 ^ 63 \<le> 1 / 2 ^ 55"
    by (intro divide_left_mono power_increasing) simp_all
  then have s': "- (1 / 2 ^ 55) \<le> s" "- 1 \<le> s"
    using s(1) by simp_all
  have fl: "\<lfloor>s\<rfloor> = - 1"
    using s s' by (intro floor_unique) simp_all
  have "rnd (s + 1) = 1"
    using s s' by (intro rnd_just_below_one) simp_all
  moreover have "to_double (s + 1) = Finite (rnd (s + 1))"
    using s s' by (intro small; linarith)
  ultimately have sub: "d_sub (Finite s) (d_floor (Finite s)) = Finite 1"
    by (simp add: d_sub_def fl)
  have "noise2_double (Finite 0) (Finite (- eps)) (Finite 0)
      = (let s = d_mul (Finite t) (Finite c3) in d_sub s (d_floor s))"
    unfolding noise2_double_def arg d_sin.simps t_def c3_def ..
  also have "\<dots> = Finite 1"
    unfolding m3 Let_def by (rule sub)
  finally show ?thesis
    unfolding eps_def .
qed

lemma sine_argument_overflow:
  "sine_argument (Finite 500) (Finite (2 ^ 1023)) (Finite 0) = PosInfinity"
proof -
  have c: "6 \<le> rnd 12.9898"
    using rnd_ge_half [of "12.9898"] by simp
  then have p: "6 * 2 ^ 1023 \<le> 2 ^ 1023 * rnd 12.9898"
    by simp
  have one: "(1::real) \<le> 2 ^ 1023"
    by simp
  then have "1 \<le> 2 ^ 1023 * rnd 12.9898"
    using p by linarith
  then have "(2 ^ 1023 * rnd 12.9898) / 2 \<le> rnd (2 ^ 1023 * rnd 12.9898)"
    by (rule rnd_ge_half)
  then have "3 * 2 ^ 1023 \<le> rnd (2 ^ 1023 * rnd 12.9898)"
    using p by linarith
  moreover have "(2::real) ^ 1024 = 2 * 2 ^ 1023"
    by simp
  ultimately have "max_double < rnd (2 ^ 1023 * rnd 12.9898)"
    using max_double_lt one by linarith
  then have x: "d_mul (Finite (2 ^ 1023)) (Finite (rnd 12.9898)) = PosInfinity"
    by (simp add: to_double_def)
  have y: "d_mul (Finite 0) (Finite (rnd 78.233)) = Finite 0"
    by (simp add: to_double_small) (simp add: rnd_def)
  show ?thesis
    unfolding sine_argument_def x y by simp
qed

lemma sine_argument_zero: "sine_argument (Finite 0) (Finite 0) (Finite 0) = Finite 0"
proof -
  have z: "to_double 0 = Finite 0"
    by (simp add: to_double_small) (simp add: rnd_def)
  show ?thesis
    by (simp add: sine_argument_def z)
qed

text \<open>
  C10 fails on the code, which computes on doubles. For the finite input \<open>x = 2\<^sup>1\<^sup>0\<^sup>2\<^sup>3\<close>
  the product \<open>x * 12.9898\<close> overflows, the sine of the infinity is \<^verbatim>\<open>NaN\<close>, and \<^verbatim>\<open>noise2\<close>
  returns \<^verbatim>\<open>NaN\<close>. For \<open>x = -2\<^sup>-\<^sup>9\<^sup>0\<close>, \<open>y = 0\<close> and the seed \<open>0\<close>, \<open>s\<close> is a negative number
  above \<open>-2\<^sup>-\<^sup>6\<^sup>3\<close>, its floor is \<open>-1\<close>, and \<open>s + 1\<close> rounds to \<open>1\<close>: \<^verbatim>\<open>noise2\<close> returns exactly
  \<open>1\<close>, which is outside \<open>[0, 1)\<close>.
\<close>

theorem noise2_double_counterexample:
  "noise2_double (Finite 500) (Finite (2 ^ 1023)) (Finite 0) = NotANumber
   \<and> noise2_double (Finite 0) (Finite (- (1 / 2 ^ 90))) (Finite 0) = Finite 1"
proof -
  have "noise2_double (Finite 500) (Finite (2 ^ 1023)) (Finite 0) = NotANumber"
    by (rule noise2_double_not_finite) (simp only: sine_argument_overflow double.distinct not_False_eq_True)
  then show ?thesis
    using noise2_double_one by (rule conjI)
qed

text \<open>
  C10, amended. On doubles, when the argument \<open>x * 12.9898 + y * 78.233 + seed\<close> of the
  sine is finite, \<^verbatim>\<open>noise2\<close> returns a finite value in the closed interval \<open>[0, 1]\<close>; when it
  is not (an overflow of the products or the sums), \<^verbatim>\<open>noise2\<close> returns \<^verbatim>\<open>NaN\<close>. Equal
  arguments and equal seed give equal output, the function reading nothing else. In
  exact arithmetic the value lies in \<open>[0, 1)\<close>.
\<close>

theorem noise2_double_range:
  "(sine_argument seed px py = Finite a \<longrightarrow>
      (\<exists>v. noise2_double seed px py = Finite v \<and> 0 \<le> v \<and> v \<le> 1))
   \<and> ((\<forall>b. sine_argument seed px py \<noteq> Finite b) \<longrightarrow> noise2_double seed px py = NotANumber)
   \<and> (seed = seed' \<and> px = px' \<and> py = py' \<longrightarrow>
        noise2_double seed px py = noise2_double seed' px' py')
   \<and> 0 \<le> noise2 rs rx ry \<and> noise2 rs rx ry < 1"
  using noise2_double_finite [of seed px py a] noise2_double_not_finite [of seed px py]
    noise2_exact_range [of rs rx ry]
  by blast

theorem noise2_double_range_witness:
  "(\<exists>v. noise2_double (Finite 0) (Finite 0) (Finite 0) = Finite v \<and> 0 \<le> v \<and> v \<le> 1)
   \<and> noise2_double (Finite 500) (Finite (2 ^ 1023)) (Finite 0) = NotANumber
   \<and> noise2_double (Finite 500) (Finite 0) (Finite 0) = noise2_double (Finite 500) (Finite 0) (Finite 0)"
proof -
  have inf: "\<forall>b. sine_argument (Finite 500) (Finite (2 ^ 1023)) (Finite 0) \<noteq> Finite b"
    by (simp only: sine_argument_overflow double.distinct not_False_eq_True simp_thms)
  from noise2_double_range [of "Finite 0" "Finite 0" "Finite 0" 0 "Finite 0" "Finite 0" "Finite 0" 0 0 0]
    sine_argument_zero
  have a: "\<exists>v. noise2_double (Finite 0) (Finite 0) (Finite 0) = Finite v \<and> 0 \<le> v \<and> v \<le> 1"
    by blast
  from noise2_double_range [of "Finite 500" "Finite (2 ^ 1023)" "Finite 0" 0
      "Finite 500" "Finite (2 ^ 1023)" "Finite 0" 0 0 0] inf
  have b: "noise2_double (Finite 500) (Finite (2 ^ 1023)) (Finite 0) = NotANumber"
    by blast
  from a b show ?thesis by simp
qed

subsection \<open>Fresh nodes\<close>

lemma new_Node_fields:
  "x (fst (new_Node t px py env)) = px"
  "y (fst (new_Node t px py env)) = py"
  "vx (fst (new_Node t px py env)) = Undefined"
  "vy (fst (new_Node t px py env)) = Undefined"
  "text (fst (new_Node t px py env)) = t"
  "trail (fst (new_Node t px py env)) = []"
  "inConstellation (fst (new_Node t px py env)) = False"
  "mass (fst (new_Node t px py env)) = 0.6 + shd (randoms env) * (1.6 - 0.6)"
  "hue (fst (new_Node t px py env)) = 215 + shd (stl (randoms env)) * (235 - 215)"
  "radius (fst (new_Node t px py env)) = 8 + mass (fst (new_Node t px py env)) * 3.5"
  by (simp_all add: new_Node_def rand_def Math_random_def Let_def split_beta)

lemma fresh_fields:
  "x (fresh px py) = px" "y (fresh px py) = py" "vx (fresh px py) = Undefined" "vy (fresh px py) = Undefined"
  "mass (fresh px py) = 1.1"
  by (simp_all add: fresh_def new_Node_fields env0_def)

subsection \<open>Link Builder\<close>

text \<open>
  C1. After \<open>rebuildLinks\<close>, for two distinct node indices the link list holds the
  (unordered) pair exactly when the Euclidean distance of the two nodes is below 120,
  the constellation distance; membership does not depend on the order of the two
  indices; no link joins a node to itself (a link is stored with its smaller index
  first), every link records the distance of its pair, and no unordered pair occurs
  twice. The node list is left as it was.
\<close>

theorem rebuildLinks_proximity:
  "(\<forall>i<length (nodes st). \<forall>j<length (nodes st). i \<noteq> j \<longrightarrow>
      (has_link (links (rebuildLinks st)) i j \<longleftrightarrow> node_dist (nodes st) i j < 120))
   \<and> (\<forall>i j. has_link (links (rebuildLinks st)) i j = has_link (links (rebuildLinks st)) j i)
   \<and> (\<forall>l\<in>set (links (rebuildLinks st)).
         li l \<noteq> lj l \<and> li l < lj l \<and> lj l < length (nodes st)
         \<and> ld l = node_dist (nodes st) (li l) (lj l))
   \<and> distinct (map (\<lambda>l. {li l, lj l}) (links (rebuildLinks st)))
   \<and> nodes (rebuildLinks st) = nodes st
   \<and> constellationDistance PHYS = 120"
proof -
  let ?L = "links (rebuildLinks st)"
  have iff: "\<forall>i<length (nodes st). \<forall>j<length (nodes st). i \<noteq> j \<longrightarrow>
      (has_link ?L i j \<longleftrightarrow> node_dist (nodes st) i j < 120)"
    using has_link_iff by blast
  have sym: "\<forall>i j. has_link ?L i j = has_link ?L j i"
    using has_link_commute by blast
  have ordered: "\<forall>l\<in>set ?L. li l < lj l"
    by (simp add: in_links_iff)
  have irrefl: "\<forall>l\<in>set ?L. li l \<noteq> lj l \<and> li l < lj l \<and> lj l < length (nodes st)
      \<and> ld l = node_dist (nodes st) (li l) (lj l)"
    by (auto simp add: in_links_iff)
  have const: "constellationDistance PHYS = 120"
    by (simp add: PHYS_def)
  have "inj_on (\<lambda>(a, b). {a, b}) {(a, b). a < (b::nat)}"
    by (auto simp: inj_on_def doubleton_eq_iff)
  moreover have "set (map (\<lambda>l. (li l, lj l)) ?L) \<subseteq> {(a, b). a < b}"
    using ordered by auto
  ultimately have "inj_on (\<lambda>(a, b). {a, b}) (set (map (\<lambda>l. (li l, lj l)) ?L))"
    by (rule inj_on_subset)
  with distinct_link_keys [of st]
  have "distinct (map (\<lambda>(a, b). {a, b}) (map (\<lambda>l. (li l, lj l)) ?L))"
    by (simp only: distinct_map)
  then have nodup: "distinct (map (\<lambda>l. {li l, lj l}) ?L)"
    by (simp add: comp_def)
  have frame: "nodes (rebuildLinks st) = nodes st"
    by (simp add: rebuildLinks_def Let_def)
  from iff sym irrefl nodup frame const show ?thesis by blast
qed

theorem rebuildLinks_proximity_witness:
  "has_link (links (rebuildLinks (state_of [fresh 0 0, fresh 100 0, fresh 300 0]))) 0 1
   \<and> has_link (links (rebuildLinks (state_of [fresh 0 0, fresh 100 0, fresh 300 0]))) 1 0
   \<and> \<not> has_link (links (rebuildLinks (state_of [fresh 0 0, fresh 100 0, fresh 300 0]))) 0 2
   \<and> \<not> has_link (links (rebuildLinks (state_of [fresh 0 0, fresh 100 0, fresh 300 0]))) 1 2"
proof -
  let ?st = "state_of [fresh 0 0, fresh 100 0, fresh 300 0]"
  have len: "length (nodes ?st) = 3"
    by (simp add: state_of_def)
  have d: "node_dist (nodes ?st) 0 1 = 100" "node_dist (nodes ?st) 1 0 = 100"
    "node_dist (nodes ?st) 0 2 = 300" "node_dist (nodes ?st) 1 2 = 200"
    by (simp_all add: state_of_def node_dist_def hypot_def fresh_fields)
  from rebuildLinks_proximity [of ?st]
  have "\<forall>i<length (nodes ?st). \<forall>j<length (nodes ?st). i \<noteq> j \<longrightarrow>
      (has_link (links (rebuildLinks ?st)) i j \<longleftrightarrow> node_dist (nodes ?st) i j < 120)"
    by blast
  with len d show ?thesis by simp
qed

subsection \<open>Shape of the tick\<close>

lemma length_pair_force: "length (pair_force dt i j ns) = length ns"
  by (simp add: pair_force_def split_beta)

lemma length_fold_pair_force: "length (fold (pair_force dt i) js ns) = length ns"
  by (induction js arbitrary: ns) (simp_all add: length_pair_force)

lemma length_fold_rows:
  "length (fold (\<lambda>i ns. fold (pair_force dt i) (row i ns) ns) rows ns) = length ns"
  by (induction rows arbitrary: ns) (simp_all add: length_fold_pair_force)

lemma length_forces: "length (forces dt ns) = length ns"
  unfolding forces_def by (rule length_fold_rows)

lemma length_reset_constellation: "length (reset_constellation ns) = length ns"
  by (simp add: reset_constellation_def)

lemma length_move_nodes: "length (fst (move_nodes w h seed dt ns env)) = length ns"
  by (induction ns arbitrary: env) (simp_all add: split_beta)

text \<open>A field that \<open>pair_update\<close> leaves alone is left alone by the whole pass.\<close>

lemma map_pair_force:
  assumes "\<And>a b. f (fst (pair_update dt a b)) = f a"
    and "\<And>a b. f (snd (pair_update dt a b)) = f b"
  shows "map f (pair_force dt i j ns) = map f ns"
proof -
  have "map f (pair_force dt i j ns) = (map f ns)[i := f (ns ! i), j := f (ns ! j)]"
    by (simp add: pair_force_def split_beta map_update assms del: list_update_id)
  also have "\<dots> = map f ns"
    by (simp add: map_update [symmetric])
  finally show ?thesis .
qed

lemma map_fold_pair_force:
  assumes "\<And>a b. f (fst (pair_update dt a b)) = f a"
    and "\<And>a b. f (snd (pair_update dt a b)) = f b"
  shows "map f (fold (pair_force dt i) js ns) = map f ns"
  by (induction js arbitrary: ns) (simp_all add: map_pair_force [of f, OF assms])

lemma map_fold_rows:
  assumes "\<And>a b. f (fst (pair_update dt a b)) = f a"
    and "\<And>a b. f (snd (pair_update dt a b)) = f b"
  shows "map f (fold (\<lambda>i ns. fold (pair_force dt i) (row i ns) ns) rows ns) = map f ns"
  by (induction rows arbitrary: ns) (simp_all add: map_fold_pair_force [of f, OF assms])

lemma map_forces:
  assumes "\<And>a b. f (fst (pair_update dt a b)) = f a"
    and "\<And>a b. f (snd (pair_update dt a b)) = f b"
  shows "map f (forces dt ns) = map f ns"
  unfolding forces_def by (rule map_fold_rows [of f, OF assms])

text \<open>What holds of every single move holds of the loop, node by node.\<close>

lemma move_nodes_all2:
  assumes "\<And>n e. P n (fst (move_node w h seed dt n e))"
  shows "list_all2 P ns (fst (move_nodes w h seed dt ns env))"
  by (induction ns arbitrary: env) (simp_all add: split_beta assms)

lemma pair_update_trail:
  "trail (fst (pair_update dt a b)) = trail a" "trail (snd (pair_update dt a b)) = trail b"
  by (simp_all add: pair_update_def Let_def)

subsection \<open>Frame conditions of the motion stages\<close>

lemma drift_centers_keeps:
  "trail (drift_centers seed time dt n) = trail n"
  "mass (drift_centers seed time dt n) = mass n"
  "hue (drift_centers seed time dt n) = hue n"
  "radius (drift_centers seed time dt n) = radius n"
  "vx (drift_centers seed time dt n) = vx n"
  "vy (drift_centers seed time dt n) = vy n"
  "x (drift_centers seed time dt n) = x n"
  "y (drift_centers seed time dt n) = y n"
  "orbitPhase (drift_centers seed time dt n) = orbitPhase n"
  "secondaryPhase (drift_centers seed time dt n) = secondaryPhase n"
  by (simp_all add: drift_centers_def Let_def)

lemma advance_phases_keeps:
  "trail (advance_phases dt n) = trail n"
  "mass (advance_phases dt n) = mass n"
  "hue (advance_phases dt n) = hue n"
  "radius (advance_phases dt n) = radius n"
  "vx (advance_phases dt n) = vx n"
  "vy (advance_phases dt n) = vy n"
  "x (advance_phases dt n) = x n"
  "y (advance_phases dt n) = y n"
  by (simp_all add: advance_phases_def Let_def)

lemma seek_target_keeps:
  "trail (seek_target dt n) = trail n"
  "mass (seek_target dt n) = mass n"
  "hue (seek_target dt n) = hue n"
  "radius (seek_target dt n) = radius n"
  "vx (seek_target dt n) = vx n"
  "vy (seek_target dt n) = vy n"
  "orbitPhase (seek_target dt n) = orbitPhase n"
  "secondaryPhase (seek_target dt n) = secondaryPhase n"
  by (simp_all add: seek_target_def Let_def)

lemma jitter_keeps:
  "trail (jitter seed time dt n) = trail n"
  "mass (jitter seed time dt n) = mass n"
  "hue (jitter seed time dt n) = hue n"
  "radius (jitter seed time dt n) = radius n"
  "vx (jitter seed time dt n) = vx n"
  "vy (jitter seed time dt n) = vy n"
  "orbitPhase (jitter seed time dt n) = orbitPhase n"
  "secondaryPhase (jitter seed time dt n) = secondaryPhase n"
  by (simp_all add: jitter_def Let_def)

lemma rotate_node_keeps:
  "trail (fst (rotate_node dt n env)) = trail n"
  "mass (fst (rotate_node dt n env)) = mass n"
  "hue (fst (rotate_node dt n env)) = hue n"
  "radius (fst (rotate_node dt n env)) = radius n"
  "vx (fst (rotate_node dt n env)) = vx n"
  "vy (fst (rotate_node dt n env)) = vy n"
  "x (fst (rotate_node dt n env)) = x n"
  "y (fst (rotate_node dt n env)) = y n"
  "orbitPhase (fst (rotate_node dt n env)) = orbitPhase n"
  "secondaryPhase (fst (rotate_node dt n env)) = secondaryPhase n"
  by (simp_all add: rotate_node_def Let_def split_beta)

lemma soft_wrap_keeps:
  "trail (fst (soft_wrap w h n env)) = trail n"
  "mass (fst (soft_wrap w h n env)) = mass n"
  "hue (fst (soft_wrap w h n env)) = hue n"
  "radius (fst (soft_wrap w h n env)) = radius n"
  "vx (fst (soft_wrap w h n env)) = vx n"
  "vy (fst (soft_wrap w h n env)) = vy n"
  "orbitPhase (fst (soft_wrap w h n env)) = orbitPhase n"
  "secondaryPhase (fst (soft_wrap w h n env)) = secondaryPhase n"
  by (simp_all add: soft_wrap_def Let_def split_beta)

lemma push_trail_keeps:
  "mass (fst (push_trail n env)) = mass n"
  "hue (fst (push_trail n env)) = hue n"
  "radius (fst (push_trail n env)) = radius n"
  "vx (fst (push_trail n env)) = vx n"
  "vy (fst (push_trail n env)) = vy n"
  "x (fst (push_trail n env)) = x n"
  "y (fst (push_trail n env)) = y n"
  "orbitPhase (fst (push_trail n env)) = orbitPhase n"
  "secondaryPhase (fst (push_trail n env)) = secondaryPhase n"
  "trail (fst (push_trail n env)) = trail_push (trail n) (x n, y n, shd (clock env))"
  by (simp_all add: push_trail_def performance_now_def Let_def split_beta)

lemmas stage_keeps = drift_centers_keeps advance_phases_keeps seek_target_keeps jitter_keeps
  rotate_node_keeps soft_wrap_keeps push_trail_keeps

lemma move_node_keeps:
  "mass (fst (move_node w h seed dt n env)) = mass n"
  "hue (fst (move_node w h seed dt n env)) = hue n"
  "radius (fst (move_node w h seed dt n env)) = radius n"
  "vx (fst (move_node w h seed dt n env)) = vx n"
  "vy (fst (move_node w h seed dt n env)) = vy n"
  by (simp_all add: move_node_def Let_def split_beta stage_keeps)

lemma move_node_trail:
  "\<exists>t. trail (fst (move_node w h seed dt n env))
        = trail_push (trail n) (x (fst (move_node w h seed dt n env)),
                                y (fst (move_node w h seed dt n env)), t)"
  by (simp add: move_node_def Let_def split_beta stage_keeps) (rule exI, rule refl)

subsection \<open>The random source stays a random source\<close>

lemma random_ok_Math_random: "random_ok env \<Longrightarrow> random_ok (snd (Math_random env))"
  by (auto simp: random_ok_def Math_random_def dest: stl_sset)

lemma random_ok_rand: "random_ok env \<Longrightarrow> random_ok (snd (rand a b env))"
  by (simp add: rand_def split_beta random_ok_Math_random)

lemma random_ok_performance_now: "random_ok env \<Longrightarrow> random_ok (snd (performance_now env))"
  by (simp add: random_ok_def performance_now_def)

lemma random_ok_new_Node: "random_ok env \<Longrightarrow> random_ok (snd (new_Node txt px py env))"
  by (simp add: new_Node_def Let_def split_beta random_ok_rand)

lemma random_ok_createNode: "random_ok env \<Longrightarrow> random_ok (snd (createNode txt xo yo st env))"
  by (simp add: createNode_def Let_def split_beta random_ok_rand random_ok_new_Node
      split: option.split)

lemma random_ok_form_submit:
  "random_ok env \<Longrightarrow> random_ok (snd (snd (form_submit input_value st env)))"
  by (simp add: form_submit_def Let_def split_beta random_ok_rand random_ok_createNode)

lemma random_ok_rotate_node: "random_ok env \<Longrightarrow> random_ok (snd (rotate_node dt n env))"
  by (simp add: rotate_node_def Let_def split_beta random_ok_rand)

lemma random_ok_soft_wrap: "random_ok env \<Longrightarrow> random_ok (snd (soft_wrap w h n env))"
  by (simp add: soft_wrap_def Let_def split_beta random_ok_rand)

lemma random_ok_push_trail: "random_ok env \<Longrightarrow> random_ok (snd (push_trail n env))"
  by (simp add: push_trail_def split_beta random_ok_performance_now)

lemma random_ok_move_node: "random_ok env \<Longrightarrow> random_ok (snd (move_node w h seed dt n env))"
  by (simp add: move_node_def Let_def split_beta random_ok_performance_now
      random_ok_rotate_node random_ok_soft_wrap random_ok_push_trail)

lemma random_ok_move_nodes: "random_ok env \<Longrightarrow> random_ok (snd (move_nodes w h seed dt ns env))"
  by (induction ns arbitrary: env) (simp_all add: split_beta random_ok_move_node)

lemma random_ok_step: "random_ok env \<Longrightarrow> random_ok (snd (step dt st env))"
  by (simp add: step_def Let_def split_beta random_ok_move_nodes)

lemma random_ok_frame: "random_ok env \<Longrightarrow> random_ok (fst (snd (frame t st env)))"
  by (simp add: frame_def Let_def split_beta random_ok_step)

lemma random_ok_boot: "random_ok env \<Longrightarrow> random_ok (snd (boot w h env))"
  by (simp add: boot_def Let_def split_beta random_ok_Math_random)

lemma reachable_random_ok: "reachable st env \<Longrightarrow> random_ok env"
proof (induction rule: reachable.induct)
  case (at_boot env w h st env')
  then show ?case using random_ok_boot [of env w h] by simp
next
  case (after_resize st env w h)
  then show ?case by simp
next
  case (after_frame st env t st' env' ops)
  then show ?case using random_ok_frame [of env t st] by simp
next
  case (after_submit st env input_value input_value' st' env')
  then show ?case using random_ok_form_submit [of env input_value st] by simp
qed

subsection \<open>The node list under each event\<close>

lemma nodes_step:
  "nodes (fst (step dt st env)) =
     fst (move_nodes (width st) (height st) (noiseSeed st) dt
            (forces dt (reset_constellation (nodes st))) env)"
proof (cases "nodes st")
  case Nil
  then show ?thesis by (simp add: step_def forces_def reset_constellation_def)
next
  case (Cons n ns)
  then show ?thesis by (simp add: step_def Let_def split_beta rebuildLinks_def)
qed

lemma nodes_frame:
  "\<exists>dt. nodes (fst (frame t st env)) = nodes (fst (step dt (st\<lparr>lastTime := t\<rparr>) env))"
  by (auto simp: frame_def Let_def split_beta)

lemma nodes_createNode:
  "\<exists>px py e. nodes (fst (createNode txt xo yo st env)) = nodes st @ [fst (new_Node txt px py e)]
      \<and> (random_ok env \<longrightarrow> random_ok e)"
proof -
  let ?rx = "case xo of Some v \<Rightarrow> (v, env) | None \<Rightarrow> rand 80 (width st - 80) env"
  let ?ry = "case yo of Some v \<Rightarrow> (v, snd ?rx) | None \<Rightarrow> rand 80 (height st - 80) (snd ?rx)"
  have eq: "nodes (fst (createNode txt xo yo st env))
              = nodes st @ [fst (new_Node txt (fst ?rx) (fst ?ry) (snd ?ry))]"
    by (simp add: createNode_def Let_def split_beta)
  have ok: "random_ok env \<longrightarrow> random_ok (snd ?ry)"
    by (simp add: random_ok_rand split: option.split)
  from eq ok show ?thesis by blast
qed

lemma nodes_form_submit:
  "nodes (fst (snd (form_submit input_value st env))) = nodes st
   \<or> (\<exists>px py e. nodes (fst (snd (form_submit input_value st env)))
                   = nodes st @ [fst (new_Node (trim input_value) px py e)]
                \<and> (random_ok env \<longrightarrow> random_ok e))"
proof (cases "trim input_value = []")
  case True
  then show ?thesis by (simp add: form_submit_def)
next
  case False
  define e1 where "e1 = snd (rand (width st * 0.3) (width st * 0.7) env)"
  define e2 where "e2 = snd (rand (height st * 0.3) (height st * 0.7) e1)"
  have ok: "random_ok env \<longrightarrow> random_ok e2"
    by (simp add: e1_def e2_def random_ok_rand)
  obtain px py e where
    "nodes (fst (createNode (trim input_value)
        (Some (fst (rand (width st * 0.3) (width st * 0.7) env)))
        (Some (fst (rand (height st * 0.3) (height st * 0.7) e1))) st e2))
       = nodes st @ [fst (new_Node (trim input_value) px py e)]"
    and "random_ok e2 \<longrightarrow> random_ok e"
    using nodes_createNode by blast
  with ok False show ?thesis
    by (auto simp: form_submit_def Let_def split_beta e1_def e2_def)
qed

subsection \<open>Two runs of the Force Field in lockstep\<close>

lemma fold_pair_force_rel:
  assumes "R m m'" "length m = length m'" "\<forall>j\<in>set js. i < j \<and> j < length m"
    and step: "\<And>j m m'. R m m' \<Longrightarrow> length m = length m' \<Longrightarrow> i < j \<Longrightarrow> j < length m
                 \<Longrightarrow> R (pair_force dt i j m) (pair_force dt i j m')"
  shows "R (fold (pair_force dt i) js m) (fold (pair_force dt i) js m')"
  using assms(1-3)
proof (induction js arbitrary: m m')
  case Nil
  then show ?case by simp
next
  case (Cons j js)
  have "R (pair_force dt i j m) (pair_force dt i j m')"
    using Cons.prems by (intro step) simp_all
  moreover have "length (pair_force dt i j m) = length (pair_force dt i j m')"
    using Cons.prems by (simp add: length_pair_force)
  moreover have "\<forall>k\<in>set js. i < k \<and> k < length (pair_force dt i j m)"
    using Cons.prems by (simp add: length_pair_force)
  ultimately show ?case
    using Cons.IH by simp
qed

lemma fold_rows_rel:
  assumes "R m m'" "length m = length m'"
    and step: "\<And>i j m m'. R m m' \<Longrightarrow> length m = length m' \<Longrightarrow> i < j \<Longrightarrow> j < length m
                 \<Longrightarrow> R (pair_force dt i j m) (pair_force dt i j m')"
  shows "R (fold (\<lambda>i m. fold (pair_force dt i) [i + 1 ..< length m] m) rows m)
           (fold (\<lambda>i m. fold (pair_force dt i) [i + 1 ..< length m] m) rows m')"
  using assms(1,2)
proof (induction rows arbitrary: m m')
  case Nil
  then show ?case by simp
next
  case (Cons i rows)
  have "R (fold (pair_force dt i) [i + 1 ..< length m] m)
          (fold (pair_force dt i) [i + 1 ..< length m] m')"
    using Cons.prems by (intro fold_pair_force_rel [where R = R] step) simp_all
  moreover have "length (fold (pair_force dt i) [i + 1 ..< length m] m)
                   = length (fold (pair_force dt i) [i + 1 ..< length m] m')"
    using Cons.prems by (simp add: length_fold_pair_force)
  ultimately show ?case
    using Cons.IH Cons.prems(2) by (simp add: length_fold_pair_force)
qed

lemma forces_rel:
  assumes "R ns ns'" "length ns = length ns'"
    and "\<And>i j m m'. R m m' \<Longrightarrow> length m = length m' \<Longrightarrow> i < j \<Longrightarrow> j < length m
           \<Longrightarrow> R (pair_force dt i j m) (pair_force dt i j m')"
  shows "R (forces dt ns) (forces dt ns')"
  unfolding forces_def using assms(2) fold_rows_rel [where R = R, OF assms(1,2,3)]
  by simp

lemma list_all_update: "list_all P xs \<Longrightarrow> P v \<Longrightarrow> list_all P (xs[i := v])"
  using set_update_subset_insert [of xs i v] by (auto simp: list_all_iff)

lemma pair_force_list_all:
  assumes "list_all P m" "i < j" "j < length m"
    and pair: "\<And>a b. P a \<Longrightarrow> P b \<Longrightarrow> P (fst (pair_update dt a b)) \<and> P (snd (pair_update dt a b))"
  shows "list_all P (pair_force dt i j m)"
proof -
  have "P (m ! i)" "P (m ! j)"
    using assms(1-3) by (simp_all add: list_all_length)
  then have "P (fst (pair_update dt (m ! i) (m ! j)))" "P (snd (pair_update dt (m ! i) (m ! j)))"
    using pair by blast+
  then show ?thesis
    using assms(1) by (simp add: pair_force_def split_beta list_all_update)
qed

lemma forces_list_all:
  assumes "list_all P ns"
    and pair: "\<And>a b. P a \<Longrightarrow> P b \<Longrightarrow> P (fst (pair_update dt a b)) \<and> P (snd (pair_update dt a b))"
  shows "list_all P (forces dt ns)"
  by (rule forces_rel [where R = "\<lambda>m m'. list_all P m" and ns' = ns])
     (simp_all add: assms(1) pair_force_list_all [where P = P, OF _ _ _ pair])

lemma move_nodes_list_all:
  assumes "list_all P ns"
    and move: "\<And>n e. P n \<Longrightarrow> P (fst (move_node w h seed dt n e))"
  shows "list_all P (fst (move_nodes w h seed dt ns env))"
  using assms(1) by (induction ns arbitrary: env) (simp_all add: split_beta move)

lemma step_list_all:
  assumes "list_all P (nodes st)"
    and reset: "\<And>n. P n \<Longrightarrow> P (n\<lparr>inConstellation := False\<rparr>)"
    and pair: "\<And>a b. P a \<Longrightarrow> P b \<Longrightarrow> P (fst (pair_update dt a b)) \<and> P (snd (pair_update dt a b))"
    and move: "\<And>n e. P n \<Longrightarrow> P (fst (move_node (width st) (height st) (noiseSeed st) dt n e))"
  shows "list_all P (nodes (fst (step dt st env)))"
proof -
  have "list_all P (reset_constellation (nodes st))"
    using assms(1) reset by (simp add: reset_constellation_def list_all_iff)
  then have "list_all P (forces dt (reset_constellation (nodes st)))"
    by (rule forces_list_all) (rule pair)
  then show ?thesis
    unfolding nodes_step by (rule move_nodes_list_all) (rule move)
qed

text \<open>A property of nodes that creation establishes and every stage keeps holds of every
  node of every reachable state.\<close>

lemma reachable_nodes_invariant:
  assumes reach: "reachable st env"
    and new: "\<And>txt px py e. random_ok e \<Longrightarrow> P (fst (new_Node txt px py e))"
    and reset: "\<And>n. P n \<Longrightarrow> P (n\<lparr>inConstellation := False\<rparr>)"
    and pair: "\<And>dt a b. P a \<Longrightarrow> P b \<Longrightarrow> P (fst (pair_update dt a b)) \<and> P (snd (pair_update dt a b))"
    and move: "\<And>w h seed dt n e. P n \<Longrightarrow> P (fst (move_node w h seed dt n e))"
  shows "list_all P (nodes st)"
  using reach
proof (induction rule: reachable.induct)
  case (at_boot env w h st env')
  then have "nodes st = []"
    by (auto simp: boot_def Let_def split_beta resize_def)
  then show ?case by simp
next
  case (after_resize st env w h)
  then show ?case by (simp add: resize_def)
next
  case (after_frame st env t st' env' ops)
  obtain dt where "nodes (fst (frame t st env)) = nodes (fst (step dt (st\<lparr>lastTime := t\<rparr>) env))"
    using nodes_frame by blast
  moreover have "list_all P (nodes (fst (step dt (st\<lparr>lastTime := t\<rparr>) env)))"
    using after_frame.IH by (intro step_list_all reset pair move) simp_all
  ultimately show ?case using after_frame.hyps(2) by simp
next
  case (after_submit st env input_value input_value' st' env')
  have ok: "random_ok env" using after_submit.hyps(1) by (rule reachable_random_ok)
  from nodes_form_submit [of input_value st env] ok after_submit.hyps(2)
  consider "nodes st' = nodes st"
    | px py e where "nodes st' = nodes st @ [fst (new_Node (trim input_value) px py e)]" "random_ok e"
    by auto
  then show ?case
  proof cases
    case 1
    then show ?thesis using after_submit.IH by simp
  next
    case 2
    then show ?thesis using after_submit.IH new by simp
  qed
qed

lemma step_nth:
  assumes "k < length (nodes st)"
  shows "\<exists>e. nodes (fst (step dt st env)) ! k
           = fst (move_node (width st) (height st) (noiseSeed st) dt
                    (forces dt (reset_constellation (nodes st)) ! k) e)"
proof -
  let ?pre = "forces dt (reset_constellation (nodes st))"
  have "list_all2 (\<lambda>n n'. \<exists>e. n' = fst (move_node (width st) (height st) (noiseSeed st) dt n e))
          ?pre (fst (move_nodes (width st) (height st) (noiseSeed st) dt ?pre env))"
    by (rule move_nodes_all2) blast
  moreover have "k < length ?pre"
    using assms by (simp add: length_forces length_reset_constellation)
  ultimately show ?thesis
    unfolding nodes_step by (rule list_all2_nthD)
qed

lemma length_nodes_step: "length (nodes (fst (step dt st env))) = length (nodes st)"
  by (simp add: nodes_step length_move_nodes length_forces length_reset_constellation)

text \<open>A field that neither the reset nor \<open>pair_update\<close> writes reads the same before the
  motion loop as before the tick.\<close>

lemma pre_move_field:
  assumes "\<And>a b. f (fst (pair_update dt a b)) = f a"
    and "\<And>a b. f (snd (pair_update dt a b)) = f b"
    and "\<And>n. f (n\<lparr>inConstellation := False\<rparr>) = f n"
    and "k < length ns"
  shows "f (forces dt (reset_constellation ns) ! k) = f (ns ! k)"
proof -
  have "map f (forces dt (reset_constellation ns)) = map f (reset_constellation ns)"
    by (rule map_forces) (rule assms(1), rule assms(2))
  also have "\<dots> = map f ns"
    by (simp add: reset_constellation_def assms(3))
  finally have "map f (forces dt (reset_constellation ns)) ! k = map f ns ! k"
    by simp
  then show ?thesis
    using assms(4) by (simp add: length_forces length_reset_constellation)
qed

subsection \<open>Trails\<close>

lemma length_trail_push: "length tr \<le> 40 \<Longrightarrow> length (trail_push tr s) \<le> 40"
  by (simp add: trail_push_def Let_def PHYS_def)

lemma last_trail_push: "trail_push tr s \<noteq> [] \<and> last (trail_push tr s) = s"
proof (cases "length (tr @ [s]) > 40")
  case True
  then obtain a b rest where "tr = a # b # rest"
    by (cases tr; cases "tl tr") auto
  then show ?thesis
    by (simp add: trail_push_def Let_def PHYS_def)
next
  case False
  then show ?thesis
    by (simp add: trail_push_def Let_def PHYS_def)
qed

lemma foldl_trail_push:
  "length tr \<le> 40 \<Longrightarrow> foldl trail_push tr ss = drop (length tr + length ss - 40) (tr @ ss)"
proof (induction ss arbitrary: tr)
  case Nil
  then show ?case by simp
next
  case (Cons s ss)
  show ?case
  proof (cases "length tr = 40")
    case True
    then obtain a rest where tr: "tr = a # rest" and rest: "length rest = 39"
      by (cases tr) auto
    have push: "trail_push tr s = rest @ [s]"
      using True tr by (simp add: trail_push_def Let_def PHYS_def)
    have "foldl trail_push tr (s # ss) = foldl trail_push (rest @ [s]) ss"
      by (simp add: push)
    also have "\<dots> = drop (length (rest @ [s]) + length ss - 40) ((rest @ [s]) @ ss)"
      using rest by (intro Cons.IH) simp
    also have "\<dots> = drop (length tr + length (s # ss) - 40) (tr @ s # ss)"
      using rest tr by simp
    finally show ?thesis .
  next
    case False
    with Cons.prems have lt: "length tr < 40" by simp
    then have push: "trail_push tr s = tr @ [s]"
      by (simp add: trail_push_def Let_def PHYS_def)
    have "foldl trail_push tr (s # ss) = foldl trail_push (tr @ [s]) ss"
      by (simp add: push)
    also have "\<dots> = drop (length (tr @ [s]) + length ss - 40) ((tr @ [s]) @ ss)"
      using lt by (intro Cons.IH) simp
    finally show ?thesis by simp
  qed
qed

lemma step_trail:
  assumes "k < length (nodes st)"
  shows "\<exists>t. trail (nodes (fst (step dt st env)) ! k)
           = trail_push (trail (nodes st ! k))
               (x (nodes (fst (step dt st env)) ! k), y (nodes (fst (step dt st env)) ! k), t)"
proof -
  let ?m = "forces dt (reset_constellation (nodes st)) ! k"
  obtain e where e: "nodes (fst (step dt st env)) ! k
      = fst (move_node (width st) (height st) (noiseSeed st) dt ?m e)"
    using step_nth [OF assms] by blast
  have "trail ?m = trail (nodes st ! k)"
    using assms by (intro pre_move_field) (simp_all add: pair_update_trail)
  with move_node_trail [of "width st" "height st" "noiseSeed st" dt ?m e] show ?thesis
    unfolding e by simp
qed

lemma reachable_trail_bound:
  assumes "reachable st env"
  shows "list_all (\<lambda>n. length (trail n) \<le> 40) (nodes st)"
proof -
  let ?P = "\<lambda>n::Node. length (trail n) \<le> 40"
  have new: "?P (fst (new_Node tx px py e))" for tx px py e
    by (simp add: new_Node_def Let_def split_beta)
  have reset: "?P n \<Longrightarrow> ?P (n\<lparr>inConstellation := False\<rparr>)" for n
    by simp
  have pair: "?P a \<Longrightarrow> ?P b \<Longrightarrow> ?P (fst (pair_update dt a b)) \<and> ?P (snd (pair_update dt a b))"
    for dt a b
    by (simp add: pair_update_trail)
  have move: "?P (fst (move_node w h seed dt n e))" if "?P n" for w h seed dt n e
  proof -
    obtain t where "trail (fst (move_node w h seed dt n e))
        = trail_push (trail n) (x (fst (move_node w h seed dt n e)), y (fst (move_node w h seed dt n e)), t)"
      using move_node_trail by blast
    with that show ?thesis
      by (simp add: length_trail_push)
  qed
  from assms new reset pair move show ?thesis
    by (rule reachable_nodes_invariant [where P = ?P])
qed

text \<open>
  C6. A tick appends to the trail of every node the sample of its new position, dropping
  the oldest sample when the trail would exceed 40: a trail of at most 40 samples
  stays at most 40 long, and its last sample is the position of the node after the tick.
  Pushing any samples onto a trail of at most 40 leaves the newest 40 of them all, in
  their order. In every state the program reaches, no trail is longer than 40.
\<close>

theorem trail_bounded_fifo:
  "(k < length (nodes st) \<longrightarrow>
      (length (trail (nodes st ! k)) \<le> 40 \<longrightarrow> length (trail (nodes (fst (step dt st env)) ! k)) \<le> 40)
      \<and> trail (nodes (fst (step dt st env)) ! k) \<noteq> []
      \<and> (\<exists>t. last (trail (nodes (fst (step dt st env)) ! k))
               = (x (nodes (fst (step dt st env)) ! k), y (nodes (fst (step dt st env)) ! k), t))
      \<and> (\<exists>t. trail (nodes (fst (step dt st env)) ! k)
               = trail_push (trail (nodes st ! k))
                   (x (nodes (fst (step dt st env)) ! k), y (nodes (fst (step dt st env)) ! k), t)))
   \<and> (length tr \<le> 40 \<longrightarrow>
        length (foldl trail_push tr ss) \<le> 40
        \<and> foldl trail_push tr ss = drop (length tr + length ss - 40) (tr @ ss))
   \<and> (reachable st' env' \<longrightarrow> list_all (\<lambda>n. length (trail n) \<le> 40) (nodes st'))"
proof -
  have tick: "(length (trail (nodes st ! k)) \<le> 40 \<longrightarrow> length (trail (nodes (fst (step dt st env)) ! k)) \<le> 40)
      \<and> trail (nodes (fst (step dt st env)) ! k) \<noteq> []
      \<and> (\<exists>t. last (trail (nodes (fst (step dt st env)) ! k))
               = (x (nodes (fst (step dt st env)) ! k), y (nodes (fst (step dt st env)) ! k), t))
      \<and> (\<exists>t. trail (nodes (fst (step dt st env)) ! k)
               = trail_push (trail (nodes st ! k))
                   (x (nodes (fst (step dt st env)) ! k), y (nodes (fst (step dt st env)) ! k), t))"
    if k: "k < length (nodes st)"
  proof -
    let ?n' = "nodes (fst (step dt st env)) ! k"
    obtain t where t: "trail ?n' = trail_push (trail (nodes st ! k)) (x ?n', y ?n', t)"
      using step_trail [OF k] by blast
    have "length (trail (nodes st ! k)) \<le> 40 \<longrightarrow> length (trail ?n') \<le> 40"
      by (simp add: t length_trail_push)
    moreover have "trail ?n' \<noteq> []" "last (trail ?n') = (x ?n', y ?n', t)"
      using last_trail_push [of "trail (nodes st ! k)" "(x ?n', y ?n', t)"] by (simp_all add: t)
    ultimately show ?thesis using t by blast
  qed
  have fifo: "length (foldl trail_push tr ss) \<le> 40
      \<and> foldl trail_push tr ss = drop (length tr + length ss - 40) (tr @ ss)"
    if "length tr \<le> 40"
    using that by (simp add: foldl_trail_push)
  have "reachable st' env' \<longrightarrow> list_all (\<lambda>n. length (trail n) \<le> 40) (nodes st')"
    using reachable_trail_bound by blast
  with tick fifo show ?thesis by blast
qed

lemma random_ok_env0: "random_ok env0"
  by (simp add: random_ok_def env0_def)

lemma reachable_after_submit:
  "reachable (fst (snd (form_submit iv (fst (boot w h env0)) (snd (boot w h env0)))))
             (snd (snd (form_submit iv (fst (boot w h env0)) (snd (boot w h env0)))))"
proof -
  let ?r = "form_submit iv (fst (boot w h env0)) (snd (boot w h env0))"
  have "reachable (fst (boot w h env0)) (snd (boot w h env0))"
    by (rule at_boot [OF random_ok_env0]) simp
  moreover have "?r = (fst ?r, fst (snd ?r), snd (snd ?r))"
    by simp
  ultimately show ?thesis
    by (rule after_submit)
qed

theorem trail_bounded_fifo_witness:
  "length (trail (nodes (fst (step 0.016 (state_of [fresh 0 0]) env0)) ! 0)) \<le> 40
   \<and> trail (nodes (fst (step 0.016 (state_of [fresh 0 0]) env0)) ! 0) \<noteq> []
   \<and> foldl trail_push [] (map (\<lambda>i. (real i, 0, 0)) [0 ..< 42])
        = drop 2 (map (\<lambda>i. (real i, 0, 0)) [0 ..< 42])
   \<and> list_all (\<lambda>n. length (trail n) \<le> 40)
        (nodes (fst (snd (form_submit [0x61] (fst (boot 800 600 env0)) (snd (boot 800 600 env0))))))"
proof -
  have k: "0 < length (nodes (state_of [fresh 0 0]))"
    by (simp add: state_of_def)
  have tr: "length (trail (nodes (state_of [fresh 0 0]) ! 0)) \<le> 40"
    by (simp add: state_of_def fresh_def new_Node_fields)
  have e: "length ([] :: sample list) \<le> 40"
    by simp
  have len: "length ([] :: sample list) + length (map (\<lambda>i. (real i, 0::real, 0::real)) [0 ..< 42]) - 40 = 2"
    by simp
  show ?thesis
    using trail_bounded_fifo [of 0 "state_of [fresh 0 0]" "0.016" env0 "[]"
        "map (\<lambda>i. (real i, 0, 0)) [0 ..< 42]"
        "fst (snd (form_submit [0x61] (fst (boot 800 600 env0)) (snd (boot 800 600 env0))))"
        "snd (snd (form_submit [0x61] (fst (boot 800 600 env0)) (snd (boot 800 600 env0))))"]
      k tr e reachable_after_submit [of "[0x61]" 800 600]
    unfolding len by simp
qed

subsection \<open>Fields the tick never writes\<close>

lemma pair_update_keeps:
  "mass (fst (pair_update dt a b)) = mass a" "mass (snd (pair_update dt a b)) = mass b"
  "hue (fst (pair_update dt a b)) = hue a" "hue (snd (pair_update dt a b)) = hue b"
  "radius (fst (pair_update dt a b)) = radius a" "radius (snd (pair_update dt a b)) = radius b"
  "x (fst (pair_update dt a b)) = x a" "x (snd (pair_update dt a b)) = x b"
  "y (fst (pair_update dt a b)) = y a" "y (snd (pair_update dt a b)) = y b"
  "orbitPhase (fst (pair_update dt a b)) = orbitPhase a"
  "orbitPhase (snd (pair_update dt a b)) = orbitPhase b"
  "secondaryPhase (fst (pair_update dt a b)) = secondaryPhase a"
  "secondaryPhase (snd (pair_update dt a b)) = secondaryPhase b"
  by (simp_all add: pair_update_def Let_def)

lemma step_field:
  assumes "\<And>a b. f (fst (pair_update dt a b)) = f a"
    and "\<And>a b. f (snd (pair_update dt a b)) = f b"
    and "\<And>n. f (n\<lparr>inConstellation := False\<rparr>) = f n"
    and "\<And>n e. f (fst (move_node (width st) (height st) (noiseSeed st) dt n e)) = f n"
    and k: "k < length (nodes st)"
  shows "f (nodes (fst (step dt st env)) ! k) = f (nodes st ! k)"
proof -
  obtain e where "nodes (fst (step dt st env)) ! k
      = fst (move_node (width st) (height st) (noiseSeed st) dt
               (forces dt (reset_constellation (nodes st)) ! k) e)"
    using step_nth [OF k] by blast
  then have "f (nodes (fst (step dt st env)) ! k) = f (forces dt (reset_constellation (nodes st)) ! k)"
    by (simp add: assms(4))
  also have "\<dots> = f (nodes st ! k)"
    using assms(1-3) k by (rule pre_move_field)
  finally show ?thesis .
qed

lemma step_constants:
  assumes "k < length (nodes st)"
  shows "mass (nodes (fst (step dt st env)) ! k) = mass (nodes st ! k)"
    and "hue (nodes (fst (step dt st env)) ! k) = hue (nodes st ! k)"
    and "radius (nodes (fst (step dt st env)) ! k) = radius (nodes st ! k)"
  using assms by (simp_all add: step_field pair_update_keeps move_node_keeps)

lemma new_Node_bounds:
  assumes "random_ok env"
  shows "0.6 \<le> mass (fst (new_Node t px py env))" "mass (fst (new_Node t px py env)) \<le> 1.6"
    "215 \<le> hue (fst (new_Node t px py env))" "hue (fst (new_Node t px py env)) \<le> 235"
proof -
  have "shd (randoms env) \<in> sset (randoms env)"
    by (simp add: shd_sset)
  moreover have "shd (stl (randoms env)) \<in> sset (randoms env)"
    by (simp add: shd_sset stl_sset)
  ultimately have "0 \<le> shd (randoms env)" "shd (randoms env) < 1"
    "0 \<le> shd (stl (randoms env))" "shd (stl (randoms env)) < 1"
    using assms unfolding random_ok_def by blast+
  then show "0.6 \<le> mass (fst (new_Node t px py env))" "mass (fst (new_Node t px py env)) \<le> 1.6"
    "215 \<le> hue (fst (new_Node t px py env))" "hue (fst (new_Node t px py env)) \<le> 235"
    by (simp_all add: new_Node_fields)
qed


lemma reachable_constants:
  assumes "reachable st env"
  shows "list_all node_constants_ok (nodes st)"
proof -
  have new: "node_constants_ok (fst (new_Node tx px py e))" if "random_ok e" for tx px py e
    using new_Node_bounds [OF that, of tx px py] by (simp add: node_constants_ok_def new_Node_fields)
  have reset: "node_constants_ok n \<Longrightarrow> node_constants_ok (n\<lparr>inConstellation := False\<rparr>)" for n
    by (simp add: node_constants_ok_def)
  have pair: "node_constants_ok a \<Longrightarrow> node_constants_ok b \<Longrightarrow>
      node_constants_ok (fst (pair_update dt a b)) \<and> node_constants_ok (snd (pair_update dt a b))"
    for dt a b
    by (simp add: node_constants_ok_def pair_update_keeps)
  have move: "node_constants_ok n \<Longrightarrow> node_constants_ok (fst (move_node w h seed dt n e))"
    for w h seed dt n e
    by (simp add: node_constants_ok_def move_node_keeps)
  from assms new reset pair move show ?thesis
    by (rule reachable_nodes_invariant [where P = node_constants_ok])
qed

subsection \<open>Node constants\<close>

lemma frame_is_step:
  "\<exists>dt. fst (frame t st env) = fst (step dt (st\<lparr>lastTime := t\<rparr>) env)"
  by (auto simp: frame_def Let_def split_beta)

lemma form_submit_keeps_nodes:
  assumes "k < length (nodes st)"
  shows "nodes (fst (snd (form_submit iv st env))) ! k = nodes st ! k"
  using nodes_form_submit [of iv st env] assms by (auto simp: nth_append)

lemma createNode_keeps_nodes:
  assumes "k < length (nodes st)"
  shows "nodes (fst (createNode tx xo yo st env)) ! k = nodes st ! k"
  using nodes_createNode [of tx xo yo st env] assms by (auto simp: nth_append)

lemma frame_constants:
  assumes "k < length (nodes st)"
  shows "mass (nodes (fst (frame t st env)) ! k) = mass (nodes st ! k)"
    and "hue (nodes (fst (frame t st env)) ! k) = hue (nodes st ! k)"
    and "radius (nodes (fst (frame t st env)) ! k) = radius (nodes st ! k)"
proof -
  obtain dt where dt: "fst (frame t st env) = fst (step dt (st\<lparr>lastTime := t\<rparr>) env)"
    using frame_is_step by blast
  have k: "k < length (nodes (st\<lparr>lastTime := t\<rparr>))"
    using assms by simp
  show "mass (nodes (fst (frame t st env)) ! k) = mass (nodes st ! k)"
    and "hue (nodes (fst (frame t st env)) ! k) = hue (nodes st ! k)"
    and "radius (nodes (fst (frame t st env)) ! k) = radius (nodes st ! k)"
    unfolding dt using step_constants [OF k, of dt env] by simp_all
qed

text \<open>
  C7. The constructor gives a node a mass in \<open>[0.6, 1.6]\<close> and a hue in \<open>[215, 235]\<close>
  (the random draws lying in \<open>[0, 1)\<close>) and the radius \<open>8 + mass * 3.5\<close>. A tick, a
  frame (tick and drawing), a link rebuild, a resize and the creation of further nodes
  leave the mass, hue and radius of every existing node as they are; the state a frame
  returns is the one its tick returns, the drawing functions returning operations only.
  Hence in every state the program reaches every node has its mass and hue in these
  ranges and the radius \<open>8 + mass * 3.5\<close>.
\<close>

theorem node_constants_fixed:
  "(random_ok env \<longrightarrow>
      0.6 \<le> mass (fst (new_Node tx px py env)) \<and> mass (fst (new_Node tx px py env)) \<le> 1.6
      \<and> 215 \<le> hue (fst (new_Node tx px py env)) \<and> hue (fst (new_Node tx px py env)) \<le> 235)
   \<and> radius (fst (new_Node tx px py env)) = 8 + mass (fst (new_Node tx px py env)) * 3.5
   \<and> (k < length (nodes st) \<longrightarrow>
        mass (nodes (fst (step dt st env)) ! k) = mass (nodes st ! k)
        \<and> hue (nodes (fst (step dt st env)) ! k) = hue (nodes st ! k)
        \<and> radius (nodes (fst (step dt st env)) ! k) = radius (nodes st ! k)
        \<and> mass (nodes (fst (frame t st env)) ! k) = mass (nodes st ! k)
        \<and> hue (nodes (fst (frame t st env)) ! k) = hue (nodes st ! k)
        \<and> radius (nodes (fst (frame t st env)) ! k) = radius (nodes st ! k)
        \<and> nodes (fst (snd (form_submit iv st env))) ! k = nodes st ! k
        \<and> nodes (fst (createNode tx xo yo st env)) ! k = nodes st ! k)
   \<and> nodes (rebuildLinks st) = nodes st
   \<and> nodes (resize w h st) = nodes st
   \<and> (\<exists>dt'. fst (frame t st env) = fst (step dt' (st\<lparr>lastTime := t\<rparr>) env))
   \<and> (reachable st' env' \<longrightarrow> list_all node_constants_ok (nodes st'))"
proof -
  have creation: "random_ok env \<longrightarrow>
      0.6 \<le> mass (fst (new_Node tx px py env)) \<and> mass (fst (new_Node tx px py env)) \<le> 1.6
      \<and> 215 \<le> hue (fst (new_Node tx px py env)) \<and> hue (fst (new_Node tx px py env)) \<le> 235"
    using new_Node_bounds [of env tx px py] by blast
  have rad: "radius (fst (new_Node tx px py env)) = 8 + mass (fst (new_Node tx px py env)) * 3.5"
    by (rule new_Node_fields)
  have kept: "k < length (nodes st) \<longrightarrow>
        mass (nodes (fst (step dt st env)) ! k) = mass (nodes st ! k)
        \<and> hue (nodes (fst (step dt st env)) ! k) = hue (nodes st ! k)
        \<and> radius (nodes (fst (step dt st env)) ! k) = radius (nodes st ! k)
        \<and> mass (nodes (fst (frame t st env)) ! k) = mass (nodes st ! k)
        \<and> hue (nodes (fst (frame t st env)) ! k) = hue (nodes st ! k)
        \<and> radius (nodes (fst (frame t st env)) ! k) = radius (nodes st ! k)
        \<and> nodes (fst (snd (form_submit iv st env))) ! k = nodes st ! k
        \<and> nodes (fst (createNode tx xo yo st env)) ! k = nodes st ! k"
    by (simp add: step_constants frame_constants form_submit_keeps_nodes createNode_keeps_nodes)
  have links: "nodes (rebuildLinks st) = nodes st"
    by (simp add: rebuildLinks_def Let_def)
  have size: "nodes (resize w h st) = nodes st"
    by (simp add: resize_def)
  have "reachable st' env' \<longrightarrow> list_all node_constants_ok (nodes st')"
    using reachable_constants by blast
  with creation rad kept links size frame_is_step [of t st env] show ?thesis
    by blast
qed

theorem node_constants_fixed_witness:
  "0.6 \<le> mass (fst (new_Node [0x61] 0 0 env0)) \<and> mass (fst (new_Node [0x61] 0 0 env0)) \<le> 1.6
   \<and> mass (nodes (fst (step 0.016 (state_of [fresh 0 0]) env0)) ! 0) = 1.1
   \<and> radius (nodes (fst (frame 16 (state_of [fresh 0 0]) env0)) ! 0) = 11.85
   \<and> list_all node_constants_ok
        (nodes (fst (snd (form_submit [0x61] (fst (boot 800 600 env0)) (snd (boot 800 600 env0))))))"
proof -
  have k: "0 < length (nodes (state_of [fresh 0 0]))"
    by (simp add: state_of_def)
  have vals: "mass (nodes (state_of [fresh 0 0]) ! 0) = 1.1"
    "radius (nodes (state_of [fresh 0 0]) ! 0) = 11.85"
    by (simp_all add: state_of_def fresh_def new_Node_fields env0_def)
  show ?thesis
    using node_constants_fixed [of env0 "[0x61]" 0 0 0 "state_of [fresh 0 0]" "0.016" 16
        "[]" None None 0 0
        "fst (snd (form_submit [0x61] (fst (boot 800 600 env0)) (snd (boot 800 600 env0))))"
        "snd (snd (form_submit [0x61] (fst (boot 800 600 env0)) (snd (boot 800 600 env0))))"]
      k random_ok_env0 reachable_after_submit [of "[0x61]" 800 600] vals
    by simp
qed

subsection \<open>Input handling\<close>

lemma trim_empty_iff: "trim s = [] \<longleftrightarrow> list_all is_whitespace s"
proof
  assume "trim s = []"
  then have "dropWhile is_whitespace (rev (dropWhile is_whitespace s)) = []"
    by (simp add: trim_def)
  then have all: "\<forall>c\<in>set (dropWhile is_whitespace s). is_whitespace c"
    by simp
  have "dropWhile is_whitespace s = []"
  proof (rule ccontr)
    assume ne: "dropWhile is_whitespace s \<noteq> []"
    then have "\<not> is_whitespace (hd (dropWhile is_whitespace s))"
      by (rule hd_dropWhile)
    moreover have "hd (dropWhile is_whitespace s) \<in> set (dropWhile is_whitespace s)"
      using ne by simp
    ultimately show False using all by blast
  qed
  then show "list_all is_whitespace s"
    by (simp add: list_all_iff)
next
  assume "list_all is_whitespace s"
  then have d: "dropWhile is_whitespace s = []"
    by (simp add: list_all_iff)
  show "trim s = []"
    unfolding trim_def d by simp
qed

lemma new_Node_text: "text (fst (new_Node t px py env)) = t"
  by (rule new_Node_fields)

lemma form_submit_blank:
  assumes "list_all is_whitespace iv"
  shows "form_submit iv st env = (iv, st, env)"
  using assms by (simp add: form_submit_def trim_empty_iff)

lemma form_submit_word:
  assumes "\<not> list_all is_whitespace iv"
  shows "fst (form_submit iv st env) = []"
    and "\<exists>px py e. nodes (fst (snd (form_submit iv st env))) = nodes st @ [fst (new_Node (trim iv) px py e)]"
proof -
  have ne: "trim iv \<noteq> []"
    using assms by (simp add: trim_empty_iff)
  then show "fst (form_submit iv st env) = []"
    by (simp add: form_submit_def Let_def split_beta)
  let ?e1 = "snd (rand (width st * 0.3) (width st * 0.7) env)"
  let ?e2 = "snd (rand (height st * 0.3) (height st * 0.7) ?e1)"
  have "nodes (fst (snd (form_submit iv st env)))
      = nodes (fst (createNode (trim iv) (Some (fst (rand (width st * 0.3) (width st * 0.7) env)))
          (Some (fst (rand (height st * 0.3) (height st * 0.7) ?e1))) st ?e2))"
    using ne by (simp add: form_submit_def Let_def split_beta)
  then show "\<exists>px py e. nodes (fst (snd (form_submit iv st env)))
      = nodes st @ [fst (new_Node (trim iv) px py e)]"
    using nodes_createNode by metis
qed

text \<open>
  C9. Submitting the form with an empty or whitespace-only input changes nothing: the
  state, and with it the node list and its length, is the one before. Submitting any
  other input appends exactly one node, whose text is the trimmed input (which is not
  empty), and clears the input. (The test is the handler's: \<open>createNode\<close> itself,
  which only the handler calls, appends one node for any text.)
\<close>

theorem form_submit_blank_noop:
  "(list_all is_whitespace iv \<longrightarrow> form_submit iv st env = (iv, st, env))
   \<and> (\<not> list_all is_whitespace iv \<longrightarrow>
        trim iv \<noteq> []
        \<and> length (nodes (fst (snd (form_submit iv st env)))) = length (nodes st) + 1
        \<and> butlast (nodes (fst (snd (form_submit iv st env)))) = nodes st
        \<and> text (last (nodes (fst (snd (form_submit iv st env))))) = trim iv
        \<and> fst (form_submit iv st env) = [])
   \<and> length (nodes (fst (createNode tx xo yo st env))) = length (nodes st) + 1"
proof -
  have word: "trim iv \<noteq> []
        \<and> length (nodes (fst (snd (form_submit iv st env)))) = length (nodes st) + 1
        \<and> butlast (nodes (fst (snd (form_submit iv st env)))) = nodes st
        \<and> text (last (nodes (fst (snd (form_submit iv st env))))) = trim iv
        \<and> fst (form_submit iv st env) = []"
    if w: "\<not> list_all is_whitespace iv"
  proof -
    obtain px py e where "nodes (fst (snd (form_submit iv st env)))
        = nodes st @ [fst (new_Node (trim iv) px py e)]"
      using form_submit_word(2) [OF w] by blast
    then show ?thesis
      using w form_submit_word(1) [OF w] by (simp add: new_Node_text trim_empty_iff)
  qed
  have "length (nodes (fst (createNode tx xo yo st env))) = length (nodes st) + 1"
    using nodes_createNode [of tx xo yo st env] by auto
  with word form_submit_blank show ?thesis
    by blast
qed

theorem form_submit_blank_noop_witness:
  "form_submit [0x20, 0x20] (state_of []) env0 = ([0x20, 0x20], state_of [], env0)
   \<and> length (nodes (fst (snd (form_submit [0x20, 0x68, 0x69, 0x20] (state_of []) env0)))) = 1
   \<and> text (last (nodes (fst (snd (form_submit [0x20, 0x68, 0x69, 0x20] (state_of []) env0)))))
        = [0x68, 0x69]"
proof -
  have blank: "list_all is_whitespace [0x20, 0x20]"
    by (simp add: is_whitespace_def)
  have word: "\<not> list_all is_whitespace [0x20, 0x68, 0x69, 0x20]"
    by (simp add: is_whitespace_def)
  have tr: "trim [0x20, 0x68, 0x69, 0x20] = [0x68, 0x69]"
    by (simp add: trim_def is_whitespace_def)
  have len: "length (nodes (state_of [])) = 0"
    by (simp add: state_of_def)
  from form_submit_blank_noop [of "[0x20, 0x20]" "state_of []" env0] blank
  have a: "form_submit [0x20, 0x20] (state_of []) env0 = ([0x20, 0x20], state_of [], env0)"
    by blast
  from form_submit_blank_noop [of "[0x20, 0x68, 0x69, 0x20]" "state_of []" env0] word
  have b: "length (nodes (fst (snd (form_submit [0x20, 0x68, 0x69, 0x20] (state_of []) env0))))
             = length (nodes (state_of [])) + 1
      \<and> text (last (nodes (fst (snd (form_submit [0x20, 0x68, 0x69, 0x20] (state_of []) env0)))))
             = trim [0x20, 0x68, 0x69, 0x20]"
    by blast
  from a b show ?thesis
    unfolding tr len by simp
qed

subsection \<open>Velocities do not flow into positions\<close>

lemma erase_v_reads:
  "x (erase_v n) = x n" "y (erase_v n) = y n" "mass (erase_v n) = mass n"
  "trail (erase_v n) = trail n" "inConstellation (erase_v n) = inConstellation n"
  by (simp_all add: erase_v_def)

lemma erase_v_idem: "erase_v (erase_v n) = erase_v n"
  by (simp add: erase_v_def)

lemma erase_v_drift_centers: "erase_v (drift_centers seed time dt n) = drift_centers seed time dt (erase_v n)"
  by (simp add: erase_v_def drift_centers_def Let_def)

lemma erase_v_advance_phases: "erase_v (advance_phases dt n) = advance_phases dt (erase_v n)"
  by (simp add: erase_v_def advance_phases_def Let_def)

lemma erase_v_seek_target: "erase_v (seek_target dt n) = seek_target dt (erase_v n)"
  by (simp add: erase_v_def seek_target_def Let_def)

lemma erase_v_jitter: "erase_v (jitter seed time dt n) = jitter seed time dt (erase_v n)"
  by (simp add: erase_v_def jitter_def Let_def)

lemma erase_v_rotate_node:
  "erase_v (fst (rotate_node dt n env)) = fst (rotate_node dt (erase_v n) env)"
  "snd (rotate_node dt n env) = snd (rotate_node dt (erase_v n) env)"
  by (simp_all add: erase_v_def rotate_node_def Let_def split_beta)

lemma erase_v_soft_wrap:
  "erase_v (fst (soft_wrap w h n env)) = fst (soft_wrap w h (erase_v n) env)"
  "snd (soft_wrap w h n env) = snd (soft_wrap w h (erase_v n) env)"
proof -
  define left where "left = (\<lambda>(n::Node) (env::Env).
      if x n < - 40
      then let n = n\<lparr>x := w + 40\<rparr>; (r, env) = rand (- 200) 200 env
           in (n\<lparr>orbitCenterX := x n + r\<rparr>, env)
      else (n, env))"
  define right where "right = (\<lambda>(n::Node) (env::Env).
      if x n > w + 40
      then let n = n\<lparr>x := - 40\<rparr>; (r, env) = rand (- 200) 200 env
           in (n\<lparr>orbitCenterX := x n + r\<rparr>, env)
      else (n, env))"
  define top where "top = (\<lambda>(n::Node) (env::Env).
      if y n < - 40
      then let n = n\<lparr>y := h + 40\<rparr>; (r, env) = rand (- 200) 200 env
           in (n\<lparr>orbitCenterY := y n + r\<rparr>, env)
      else (n, env))"
  define bottom where "bottom = (\<lambda>(n::Node) (env::Env).
      if y n > h + 40
      then let n = n\<lparr>y := - 40\<rparr>; (r, env) = rand (- 200) 200 env
           in (n\<lparr>orbitCenterY := y n + r\<rparr>, env)
      else (n, env))"
  have unfold: "soft_wrap w h k e =
      (let p = left k e; p = right (fst p) (snd p); p = top (fst p) (snd p)
       in bottom (fst p) (snd p))" for k e
    by (simp only: soft_wrap_def left_def right_def top_def bottom_def Let_def split_beta prod.collapse)
  have l: "erase_v (fst (left k e)) = fst (left (erase_v k) e)" "snd (left k e) = snd (left (erase_v k) e)" for k e
    by (simp_all add: left_def erase_v_def Let_def split_beta)
  have r: "erase_v (fst (right k e)) = fst (right (erase_v k) e)" "snd (right k e) = snd (right (erase_v k) e)" for k e
    by (simp_all add: right_def erase_v_def Let_def split_beta)
  have t: "erase_v (fst (top k e)) = fst (top (erase_v k) e)" "snd (top k e) = snd (top (erase_v k) e)" for k e
    by (simp_all add: top_def erase_v_def Let_def split_beta)
  have b: "erase_v (fst (bottom k e)) = fst (bottom (erase_v k) e)" "snd (bottom k e) = snd (bottom (erase_v k) e)" for k e
    by (simp_all add: bottom_def erase_v_def Let_def split_beta)
  let ?p1 = "left n env" and ?q1 = "left (erase_v n) env"
  have 1: "erase_v (fst ?p1) = fst ?q1" "snd ?p1 = snd ?q1"
    by (rule l)+
  let ?p2 = "right (fst ?p1) (snd ?p1)" and ?q2 = "right (fst ?q1) (snd ?q1)"
  have 2: "erase_v (fst ?p2) = fst ?q2" "snd ?p2 = snd ?q2"
    using r [of "fst ?p1" "snd ?p1"] by (simp_all only: 1)
  let ?p3 = "top (fst ?p2) (snd ?p2)" and ?q3 = "top (fst ?q2) (snd ?q2)"
  have 3: "erase_v (fst ?p3) = fst ?q3" "snd ?p3 = snd ?q3"
    using t [of "fst ?p2" "snd ?p2"] by (simp_all only: 2)
  let ?p4 = "bottom (fst ?p3) (snd ?p3)" and ?q4 = "bottom (fst ?q3) (snd ?q3)"
  have 4: "erase_v (fst ?p4) = fst ?q4" "snd ?p4 = snd ?q4"
    using b [of "fst ?p3" "snd ?p3"] by (simp_all only: 3)
  show "erase_v (fst (soft_wrap w h n env)) = fst (soft_wrap w h (erase_v n) env)"
    unfolding unfold Let_def by (rule 4)
  show "snd (soft_wrap w h n env) = snd (soft_wrap w h (erase_v n) env)"
    unfolding unfold Let_def by (rule 4)
qed

lemma erase_v_push_trail:
  "erase_v (fst (push_trail n env)) = fst (push_trail (erase_v n) env)"
  "snd (push_trail n env) = snd (push_trail (erase_v n) env)"
  by (simp_all add: erase_v_def push_trail_def Let_def split_beta)

lemma erase_v_move_node:
  "erase_v (fst (move_node w h seed dt n env)) = fst (move_node w h seed dt (erase_v n) env)"
  "snd (move_node w h seed dt n env) = snd (move_node w h seed dt (erase_v n) env)"
proof -
  let ?e = "snd (performance_now env)"
  let ?t = "fst (performance_now env) * 0.001"
  let ?m = "jitter seed ?t dt (seek_target dt (advance_phases dt (drift_centers seed ?t dt n)))"
  let ?m' = "jitter seed ?t dt (seek_target dt (advance_phases dt (drift_centers seed ?t dt (erase_v n))))"
  have m: "erase_v ?m = ?m'"
    by (simp only: erase_v_jitter erase_v_seek_target erase_v_advance_phases erase_v_drift_centers)
  have r: "erase_v (fst (rotate_node dt ?m ?e)) = fst (rotate_node dt ?m' ?e)"
    "snd (rotate_node dt ?m ?e) = snd (rotate_node dt ?m' ?e)"
    using erase_v_rotate_node [of dt ?m ?e] by (simp_all only: m)
  let ?r = "rotate_node dt ?m ?e" and ?r' = "rotate_node dt ?m' ?e"
  have s: "erase_v (fst (soft_wrap w h (fst ?r) (snd ?r))) = fst (soft_wrap w h (fst ?r') (snd ?r'))"
    "snd (soft_wrap w h (fst ?r) (snd ?r)) = snd (soft_wrap w h (fst ?r') (snd ?r'))"
    using erase_v_soft_wrap [of w h "fst ?r" "snd ?r"] by (simp_all only: r)
  let ?s = "soft_wrap w h (fst ?r) (snd ?r)" and ?s' = "soft_wrap w h (fst ?r') (snd ?r')"
  have p: "erase_v (fst (push_trail (fst ?s) (snd ?s))) = fst (push_trail (fst ?s') (snd ?s'))"
    "snd (push_trail (fst ?s) (snd ?s)) = snd (push_trail (fst ?s') (snd ?s'))"
    using erase_v_push_trail [of "fst ?s" "snd ?s"] by (simp_all only: s)
  have unfold: "move_node w h seed dt k env
      = (let r = rotate_node dt (jitter seed ?t dt (seek_target dt (advance_phases dt
                  (drift_centers seed ?t dt k)))) ?e;
             s = soft_wrap w h (fst r) (snd r)
         in push_trail (fst s) (snd s))" for k
    by (simp add: move_node_def Let_def split_beta)
  show "erase_v (fst (move_node w h seed dt n env)) = fst (move_node w h seed dt (erase_v n) env)"
    "snd (move_node w h seed dt n env) = snd (move_node w h seed dt (erase_v n) env)"
    unfolding unfold Let_def using p by simp_all
qed

lemma move_node_same_but_velocity:
  assumes "erase_v n = erase_v n'"
  shows "erase_v (fst (move_node w h seed dt n env)) = erase_v (fst (move_node w h seed dt n' env))"
    and "snd (move_node w h seed dt n env) = snd (move_node w h seed dt n' env)"
  using assms erase_v_move_node [of w h seed dt n env] erase_v_move_node [of w h seed dt n' env]
  by simp_all

lemma move_nodes_same_but_velocity:
  assumes "map erase_v ns = map erase_v ns'"
  shows "map erase_v (fst (move_nodes w h seed dt ns env))
           = map erase_v (fst (move_nodes w h seed dt ns' env))
         \<and> snd (move_nodes w h seed dt ns env) = snd (move_nodes w h seed dt ns' env)"
  using assms
proof (induction ns arbitrary: ns' env)
  case Nil
  then show ?case by simp
next
  case (Cons n ns)
  then obtain n' rest where ns': "ns' = n' # rest" and hd: "erase_v n = erase_v n'"
    and tl: "map erase_v ns = map erase_v rest"
    by (cases ns') auto
  have e: "snd (move_node w h seed dt n env) = snd (move_node w h seed dt n' env)"
    using hd by (rule move_node_same_but_velocity)
  have n: "erase_v (fst (move_node w h seed dt n env)) = erase_v (fst (move_node w h seed dt n' env))"
    using hd by (rule move_node_same_but_velocity)
  from Cons.IH [OF tl, of "snd (move_node w h seed dt n env)"] e n show ?case
    by (simp add: ns' split_beta)
qed

lemma erase_v_pair_update:
  "erase_v (fst (pair_update dt a b)) = erase_v (fst (pair_update dt (erase_v a) (erase_v b)))"
  "erase_v (snd (pair_update dt a b)) = erase_v (snd (pair_update dt (erase_v a) (erase_v b)))"
  by (simp_all add: pair_update_def Let_def erase_v_def)

lemma pair_update_same_but_velocity:
  assumes "erase_v a = erase_v a'" "erase_v b = erase_v b'"
  shows "erase_v (fst (pair_update dt a b)) = erase_v (fst (pair_update dt a' b'))"
    and "erase_v (snd (pair_update dt a b)) = erase_v (snd (pair_update dt a' b'))"
  using assms erase_v_pair_update [of dt a b] erase_v_pair_update [of dt a' b'] by simp_all

lemma pair_force_same_but_velocity:
  assumes eq: "map erase_v m = map erase_v m'" and "i < j" "j < length m"
  shows "map erase_v (pair_force dt i j m) = map erase_v (pair_force dt i j m')"
proof -
  have len: "length m = length m'"
    using eq by (rule map_eq_imp_length_eq)
  have "erase_v (m ! i) = erase_v (m' ! i)" "erase_v (m ! j) = erase_v (m' ! j)"
    using assms len nth_map [of i m erase_v] nth_map [of i m' erase_v]
      nth_map [of j m erase_v] nth_map [of j m' erase_v] by simp_all
  then have "erase_v (fst (pair_update dt (m ! i) (m ! j))) = erase_v (fst (pair_update dt (m' ! i) (m' ! j)))"
    "erase_v (snd (pair_update dt (m ! i) (m ! j))) = erase_v (snd (pair_update dt (m' ! i) (m' ! j)))"
    by (rule pair_update_same_but_velocity)+
  then show ?thesis
    by (simp add: pair_force_def split_beta map_update eq)
qed

lemma forces_same_but_velocity:
  assumes "map erase_v ns = map erase_v ns'"
  shows "map erase_v (forces dt ns) = map erase_v (forces dt ns')"
proof (rule forces_rel [where R = "\<lambda>m m'. map erase_v m = map erase_v m'"])
  show "map erase_v ns = map erase_v ns'" by (rule assms)
  show "length ns = length ns'" using assms by (rule map_eq_imp_length_eq)
next
  fix i j m m'
  assume "map erase_v m = map erase_v m'" "i < j" "j < length m"
  then show "map erase_v (pair_force dt i j m) = map erase_v (pair_force dt i j m')"
    by (rule pair_force_same_but_velocity)
qed

lemma reset_same_but_velocity:
  assumes "map erase_v ns = map erase_v ns'"
  shows "map erase_v (reset_constellation ns) = map erase_v (reset_constellation ns')"
proof -
  have "map erase_v (reset_constellation k) = map (\<lambda>n. n\<lparr>inConstellation := False\<rparr>) (map erase_v k)"
    for k
    by (simp add: reset_constellation_def erase_v_def)
  then show ?thesis by (simp only: assms)
qed

lemma link_pair_same_but_velocity:
  assumes eq: "map erase_v ns = map erase_v ns'" and "i < length ns" "j < length ns"
  shows "link_pair ns i j acc = link_pair ns' i j acc"
proof -
  have len: "length ns = length ns'"
    using eq by (rule map_eq_imp_length_eq)
  have "erase_v (ns ! i) = erase_v (ns' ! i)" "erase_v (ns ! j) = erase_v (ns' ! j)"
    using assms len nth_map [of i ns erase_v] nth_map [of i ns' erase_v]
      nth_map [of j ns erase_v] nth_map [of j ns' erase_v] by simp_all
  then have "x (ns ! i) = x (ns' ! i)" "y (ns ! i) = y (ns' ! i)"
    "x (ns ! j) = x (ns' ! j)" "y (ns ! j) = y (ns' ! j)"
    by (metis erase_v_reads(1), metis erase_v_reads(2), metis erase_v_reads(1), metis erase_v_reads(2))
  then show ?thesis
    by (simp add: link_pair_def Let_def)
qed

lemma rebuildLinks_same_but_velocity:
  assumes eq: "map erase_v (nodes st) = map erase_v (nodes st')"
  shows "links (rebuildLinks st) = links (rebuildLinks st')"
proof -
  have len: "length (nodes st) = length (nodes st')"
    using eq by (rule map_eq_imp_length_eq)
  have inner: "concat (map (\<lambda>j. link_pair (nodes st) i j []) [i + 1 ..< length (nodes st)])
      = concat (map (\<lambda>j. link_pair (nodes st') i j []) [i + 1 ..< length (nodes st)])"
    if "i \<in> set [0 ..< length (nodes st)]" for i
  proof -
    have "map (\<lambda>j. link_pair (nodes st) i j []) [i + 1 ..< length (nodes st)]
        = map (\<lambda>j. link_pair (nodes st') i j []) [i + 1 ..< length (nodes st)]"
      using that by (intro map_cong refl link_pair_same_but_velocity [OF eq]) simp_all
    then show ?thesis by (rule arg_cong)
  qed
  have "map (\<lambda>i. concat (map (\<lambda>j. link_pair (nodes st) i j []) [i + 1 ..< length (nodes st)]))
          [0 ..< length (nodes st)]
      = map (\<lambda>i. concat (map (\<lambda>j. link_pair (nodes st') i j []) [i + 1 ..< length (nodes st)]))
          [0 ..< length (nodes st)]"
    by (rule map_cong [OF refl]) (rule inner)
  then show ?thesis
    by (simp only: links_rebuildLinks len [symmetric])
qed

lemma step_same_but_velocity:
  assumes eq: "map erase_v ns' = map erase_v (nodes st)"
  shows "map erase_v (nodes (fst (step dt (st\<lparr>nodes := ns'\<rparr>) env)))
           = map erase_v (nodes (fst (step dt st env)))"
    and "links (fst (step dt (st\<lparr>nodes := ns'\<rparr>) env)) = links (fst (step dt st env))"
    and "snd (step dt (st\<lparr>nodes := ns'\<rparr>) env) = snd (step dt st env)"
proof -
  let ?pre' = "forces dt (reset_constellation ns')"
  let ?pre = "forces dt (reset_constellation (nodes st))"
  let ?mv' = "move_nodes (width st) (height st) (noiseSeed st) dt ?pre' env"
  let ?mv = "move_nodes (width st) (height st) (noiseSeed st) dt ?pre env"
  have len: "length ns' = length (nodes st)"
    using eq by (rule map_eq_imp_length_eq)
  have "map erase_v ?pre' = map erase_v ?pre"
    using eq by (intro forces_same_but_velocity reset_same_but_velocity)
  then have mv: "map erase_v (fst ?mv') = map erase_v (fst ?mv) \<and> snd ?mv' = snd ?mv"
    by (rule move_nodes_same_but_velocity)
  show nodes_eq: "map erase_v (nodes (fst (step dt (st\<lparr>nodes := ns'\<rparr>) env)))
           = map erase_v (nodes (fst (step dt st env)))"
    using mv by (simp add: nodes_step)
  show "snd (step dt (st\<lparr>nodes := ns'\<rparr>) env) = snd (step dt st env)"
    using mv len by (simp add: step_def Let_def split_beta)
  show "links (fst (step dt (st\<lparr>nodes := ns'\<rparr>) env)) = links (fst (step dt st env))"
  proof (cases "nodes st = []")
    case True
    then show ?thesis using len by (simp add: step_def)
  next
    case False
    have "links (rebuildLinks (st\<lparr>nodes := fst ?mv'\<rparr>)) = links (rebuildLinks (st\<lparr>nodes := fst ?mv\<rparr>))"
      using mv by (intro rebuildLinks_same_but_velocity) simp
    then show ?thesis
      using False len by (simp add: step_def Let_def split_beta)
  qed
qed

lemma map_erase_v_reads:
  assumes "map erase_v ns' = map erase_v ns"
  shows "map x ns' = map x ns" "map y ns' = map y ns" "map trail ns' = map trail ns"
proof -
  have "map x (map erase_v k) = map x k" "map y (map erase_v k) = map y k"
    "map trail (map erase_v k) = map trail k" for k
    by (simp_all add: erase_v_reads comp_def)
  then show "map x ns' = map x ns" "map y ns' = map y ns" "map trail ns' = map trail ns"
    using assms by metis+
qed

text \<open>
  C2. Two states that differ at most in the \<open>vx\<close> and \<open>vy\<close> fields of their nodes, ticked
  with the same time step, the same random draws and the same clock, end in states that
  again differ at most in those fields: the positions, the trails and every other field
  of every node are the same, the link lists are the same, and the same random draws
  and clock readings have been consumed. So no position update reads a velocity.
\<close>

theorem velocity_noninterference:
  "map erase_v ns' = map erase_v (nodes st) \<longrightarrow>
     map erase_v (nodes (fst (step dt (st\<lparr>nodes := ns'\<rparr>) env)))
       = map erase_v (nodes (fst (step dt st env)))
     \<and> map x (nodes (fst (step dt (st\<lparr>nodes := ns'\<rparr>) env))) = map x (nodes (fst (step dt st env)))
     \<and> map y (nodes (fst (step dt (st\<lparr>nodes := ns'\<rparr>) env))) = map y (nodes (fst (step dt st env)))
     \<and> map trail (nodes (fst (step dt (st\<lparr>nodes := ns'\<rparr>) env)))
         = map trail (nodes (fst (step dt st env)))
     \<and> links (fst (step dt (st\<lparr>nodes := ns'\<rparr>) env)) = links (fst (step dt st env))
     \<and> snd (step dt (st\<lparr>nodes := ns'\<rparr>) env) = snd (step dt st env)"
proof
  assume eq: "map erase_v ns' = map erase_v (nodes st)"
  note same = step_same_but_velocity [OF eq, of dt env]
  from same(1) map_erase_v_reads [OF same(1)] same(2) same(3)
  show "map erase_v (nodes (fst (step dt (st\<lparr>nodes := ns'\<rparr>) env)))
       = map erase_v (nodes (fst (step dt st env)))
     \<and> map x (nodes (fst (step dt (st\<lparr>nodes := ns'\<rparr>) env))) = map x (nodes (fst (step dt st env)))
     \<and> map y (nodes (fst (step dt (st\<lparr>nodes := ns'\<rparr>) env))) = map y (nodes (fst (step dt st env)))
     \<and> map trail (nodes (fst (step dt (st\<lparr>nodes := ns'\<rparr>) env)))
         = map trail (nodes (fst (step dt st env)))
     \<and> links (fst (step dt (st\<lparr>nodes := ns'\<rparr>) env)) = links (fst (step dt st env))
     \<and> snd (step dt (st\<lparr>nodes := ns'\<rparr>) env) = snd (step dt st env)"
    by blast
qed

theorem velocity_noninterference_witness:
  "map x (nodes (fst (step 0.016
       ((state_of [fresh 0 0, fresh 10 0])\<lparr>nodes := [(fresh 0 0)\<lparr>vx := Num 5, vy := NaN\<rparr>, fresh 10 0]\<rparr>) env0)))
     = map x (nodes (fst (step 0.016 (state_of [fresh 0 0, fresh 10 0]) env0)))
   \<and> links (fst (step 0.016
       ((state_of [fresh 0 0, fresh 10 0])\<lparr>nodes := [(fresh 0 0)\<lparr>vx := Num 5, vy := NaN\<rparr>, fresh 10 0]\<rparr>) env0))
     = links (fst (step 0.016 (state_of [fresh 0 0, fresh 10 0]) env0))"
proof -
  have "map erase_v [(fresh 0 0)\<lparr>vx := Num 5, vy := NaN\<rparr>, fresh 10 0]
      = map erase_v (nodes (state_of [fresh 0 0, fresh 10 0]))"
    by (simp add: state_of_def erase_v_def)
  with velocity_noninterference [of "[(fresh 0 0)\<lparr>vx := Num 5, vy := NaN\<rparr>, fresh 10 0]"
      "state_of [fresh 0 0, fresh 10 0]" "0.016" env0]
  show ?thesis by blast
qed

subsection \<open>The Force Field pass, node by node\<close>

lemma forces_all2:
  assumes refl: "\<And>a. Q a a"
    and trans: "\<And>a b c. Q a b \<Longrightarrow> Q b c \<Longrightarrow> Q a c"
    and pair: "\<And>a b. Q a (fst (pair_update dt a b)) \<and> Q b (snd (pair_update dt a b))"
  shows "list_all2 Q ns (forces dt ns)"
proof (rule forces_rel [where R = "\<lambda>m m'. list_all2 Q ns m" and ns' = ns])
  show "list_all2 Q ns ns"
    by (simp add: list_all2_conv_all_nth refl)
  show "length ns = length ns" ..
next
  fix i j and m m' :: "Node list"
  assume m: "list_all2 Q ns m" and "i < j" "j < length m"
  then have i: "i < length m" by simp
  have len: "length ns = length m"
    using m by (rule list_all2_lengthD)
  let ?a = "fst (pair_update dt (m ! i) (m ! j))" and ?b = "snd (pair_update dt (m ! i) (m ! j))"
  have "Q (ns ! i) (m ! i)" "Q (ns ! j) (m ! j)"
    using m i \<open>j < length m\<close> by (simp_all add: list_all2_conv_all_nth)
  then have "Q (ns ! i) ?a" "Q (ns ! j) ?b"
    using pair [of "m ! i" "m ! j"] trans by blast+
  then have "list_all2 Q (ns[i := ns ! i, j := ns ! j]) (m[i := ?a, j := ?b])"
    using m by (intro list_all2_update_cong)
  then show "list_all2 Q ns (pair_force dt i j m)"
    by (simp add: pair_force_def split_beta)
qed

lemma forces_two:
  "forces dt [a, b] = [fst (pair_update dt a b), snd (pair_update dt a b)]"
proof -
  have "[0 ..< length [a, b]] = [0, 1]" "[0 + 1 ..< length [a, b]] = [1]"
    by (simp_all add: upt_rec)
  then show ?thesis
    by (simp add: forces_def pair_force_def split_beta length_pair_force upt_rec)
qed

lemma move_node_inConstellation:
  "inConstellation (fst (move_node w h seed dt n env)) = inConstellation n"
proof -
  have "inConstellation (drift_centers seed t dt k) = inConstellation k"
    "inConstellation (advance_phases dt k) = inConstellation k"
    "inConstellation (seek_target dt k) = inConstellation k"
    "inConstellation (jitter seed t dt k) = inConstellation k"
    "inConstellation (fst (rotate_node dt k e)) = inConstellation k"
    "inConstellation (fst (soft_wrap w h k e)) = inConstellation k"
    "inConstellation (fst (push_trail k e)) = inConstellation k" for t k e
    by (simp_all add: drift_centers_def advance_phases_def seek_target_def jitter_def
        rotate_node_def soft_wrap_def push_trail_def Let_def split_beta)
  then show ?thesis
    by (simp add: move_node_def Let_def split_beta)
qed

text \<open>After the Force Field pass the tick writes neither the velocity nor the
  constellation flag.\<close>

lemma step_after_forces:
  assumes "k < length (nodes st)"
  shows "vx (nodes (fst (step dt st env)) ! k) = vx (forces dt (reset_constellation (nodes st)) ! k)"
    and "vy (nodes (fst (step dt st env)) ! k) = vy (forces dt (reset_constellation (nodes st)) ! k)"
    and "inConstellation (nodes (fst (step dt st env)) ! k)
           = inConstellation (forces dt (reset_constellation (nodes st)) ! k)"
proof -
  obtain e where e: "nodes (fst (step dt st env)) ! k
      = fst (move_node (width st) (height st) (noiseSeed st) dt
               (forces dt (reset_constellation (nodes st)) ! k) e)"
    using step_nth [OF assms] by blast
  show "vx (nodes (fst (step dt st env)) ! k) = vx (forces dt (reset_constellation (nodes st)) ! k)"
    and "vy (nodes (fst (step dt st env)) ! k) = vy (forces dt (reset_constellation (nodes st)) ! k)"
    and "inConstellation (nodes (fst (step dt st env)) ! k)
           = inConstellation (forces dt (reset_constellation (nodes st)) ! k)"
    unfolding e by (simp_all add: move_node_keeps move_node_inConstellation)
qed

subsection \<open>States of two nodes\<close>

lemma list_two_nth: "length xs = 2 \<Longrightarrow> xs = [xs ! 0, xs ! 1]"
  by (cases xs; cases "tl xs") auto

lemma step_two:
  assumes "nodes st = [a, b]"
  shows "map vx (nodes (fst (step dt st env)))
           = [vx (fst (pair_update dt (a\<lparr>inConstellation := False\<rparr>) (b\<lparr>inConstellation := False\<rparr>))),
              vx (snd (pair_update dt (a\<lparr>inConstellation := False\<rparr>) (b\<lparr>inConstellation := False\<rparr>)))]"
    and "map vy (nodes (fst (step dt st env)))
           = [vy (fst (pair_update dt (a\<lparr>inConstellation := False\<rparr>) (b\<lparr>inConstellation := False\<rparr>))),
              vy (snd (pair_update dt (a\<lparr>inConstellation := False\<rparr>) (b\<lparr>inConstellation := False\<rparr>)))]"
    and "map inConstellation (nodes (fst (step dt st env)))
           = [inConstellation (fst (pair_update dt (a\<lparr>inConstellation := False\<rparr>) (b\<lparr>inConstellation := False\<rparr>))),
              inConstellation (snd (pair_update dt (a\<lparr>inConstellation := False\<rparr>) (b\<lparr>inConstellation := False\<rparr>)))]"
proof -
  let ?ns' = "nodes (fst (step dt st env))"
  have len: "length ?ns' = 2"
    using assms by (simp add: length_nodes_step)
  have pre: "forces dt (reset_constellation (nodes st))
      = [fst (pair_update dt (a\<lparr>inConstellation := False\<rparr>) (b\<lparr>inConstellation := False\<rparr>)),
         snd (pair_update dt (a\<lparr>inConstellation := False\<rparr>) (b\<lparr>inConstellation := False\<rparr>))]"
    using assms by (simp add: reset_constellation_def forces_two)
  have k: "0 < length (nodes st)" "1 < length (nodes st)"
    using assms by simp_all
  obtain n0 n1 where ns': "?ns' = [n0, n1]"
    using list_two_nth [OF len] by blast
  show "map vx (nodes (fst (step dt st env)))
           = [vx (fst (pair_update dt (a\<lparr>inConstellation := False\<rparr>) (b\<lparr>inConstellation := False\<rparr>))),
              vx (snd (pair_update dt (a\<lparr>inConstellation := False\<rparr>) (b\<lparr>inConstellation := False\<rparr>)))]"
    and "map vy (nodes (fst (step dt st env)))
           = [vy (fst (pair_update dt (a\<lparr>inConstellation := False\<rparr>) (b\<lparr>inConstellation := False\<rparr>))),
              vy (snd (pair_update dt (a\<lparr>inConstellation := False\<rparr>) (b\<lparr>inConstellation := False\<rparr>)))]"
    and "map inConstellation (nodes (fst (step dt st env)))
           = [inConstellation (fst (pair_update dt (a\<lparr>inConstellation := False\<rparr>) (b\<lparr>inConstellation := False\<rparr>))),
              inConstellation (snd (pair_update dt (a\<lparr>inConstellation := False\<rparr>) (b\<lparr>inConstellation := False\<rparr>)))]"
    using step_after_forces [OF k(1), of dt env] step_after_forces [OF k(2), of dt env]
    unfolding pre ns' by simp_all
qed

subsection \<open>Repulsion of two nodes ten pixels apart\<close>

text \<open>The strength of the repulsion along the axis, for the nodes at \<open>(100, 100)\<close> and
  \<open>(110, 100)\<close>: \<open>nx * strength\<close> with \<open>dist = 10 + 10\<^sup>-\<^sup>6\<close> and \<open>distSq = 100\<close>.\<close>

lemma pair_update_ten_apart:
  assumes "x a = 100" "y a = 100" "x b = 110" "y b = 100"
  shows "vx (fst (pair_update dt a b))
           = js_sub (vx a) (10 / 10.000001 * (0.05 / 100.000001) * dt * mass b)"
    and "vx (snd (pair_update dt a b))
           = js_add (vx b) (10 / 10.000001 * (0.05 / 100.000001) * dt * mass a)"
    and "vy (fst (pair_update dt a b)) = js_sub (vy a) 0"
    and "vy (snd (pair_update dt a b)) = js_add (vy b) 0"
    and "inConstellation (fst (pair_update dt a b))"
    and "inConstellation (snd (pair_update dt a b))"
proof -
  have d: "sqrt ((110 - 100) * (110 - 100) + (100 - 100) * (100 - 100)) = (10::real)"
    by simp
  show "vx (fst (pair_update dt a b))
           = js_sub (vx a) (10 / 10.000001 * (0.05 / 100.000001) * dt * mass b)"
    and "vx (snd (pair_update dt a b))
           = js_add (vx b) (10 / 10.000001 * (0.05 / 100.000001) * dt * mass a)"
    and "vy (fst (pair_update dt a b)) = js_sub (vy a) 0"
    and "vy (snd (pair_update dt a b)) = js_add (vy b) 0"
    and "inConstellation (fst (pair_update dt a b))"
    and "inConstellation (snd (pair_update dt a b))"
    unfolding pair_update_def assms Let_def d PHYS_def by simp_all
qed

subsection \<open>Velocities are never numbers\<close>

lemma js_arith_not_numeric:
  "v = Undefined \<or> v = NaN \<Longrightarrow> js_add v e = NaN"
  "v = Undefined \<or> v = NaN \<Longrightarrow> js_sub v e = NaN"
  by auto

lemma pair_update_not_numeric:
  assumes "velocity_not_numeric a" "velocity_not_numeric b"
  shows "velocity_not_numeric (fst (pair_update dt a b))
         \<and> velocity_not_numeric (snd (pair_update dt a b))"
  using assms unfolding velocity_not_numeric_def
  by (simp add: pair_update_def Let_def js_arith_not_numeric)

lemma reachable_velocity_not_numeric:
  assumes "reachable st env"
  shows "list_all velocity_not_numeric (nodes st)"
proof -
  have new: "velocity_not_numeric (fst (new_Node tx px py e))" for tx px py e
    by (simp add: velocity_not_numeric_def new_Node_fields)
  have reset: "velocity_not_numeric n \<Longrightarrow> velocity_not_numeric (n\<lparr>inConstellation := False\<rparr>)" for n
    by (simp add: velocity_not_numeric_def)
  have move: "velocity_not_numeric n \<Longrightarrow> velocity_not_numeric (fst (move_node w h seed dt n e))"
    for w h seed dt n e
    by (simp add: velocity_not_numeric_def move_node_keeps)
  from assms new reset pair_update_not_numeric move show ?thesis
    by (rule reachable_nodes_invariant [where P = velocity_not_numeric])
qed

subsection \<open>Repulsion: what the code does\<close>

text \<open>
  C8, as the code runs it. Two nodes as the constructor builds them, at \<open>(100, 100)\<close> and
  \<open>(110, 100)\<close>: after a tick, whatever the time step, all four velocity components are
  \<open>NaN\<close>, the repulsion having subtracted from and added to \<^verbatim>\<open>undefined\<close>. Had the
  two nodes numeric velocities, the same tick with a positive time step would lower
  \<open>vx\<close> of the left node and raise \<open>vx\<close> of the right node (the repulsion branch, pushing
  them apart along the axis that joins them) and leave both \<open>vy\<close> as they were. But in
  no state that the program reaches has any node a numeric velocity component.
\<close>

theorem repulsion_of_fresh_nodes:
  "map vx (nodes (fst (step dt (state_of [fresh 100 100, fresh 110 100]) env))) = [NaN, NaN]
   \<and> map vy (nodes (fst (step dt (state_of [fresh 100 100, fresh 110 100]) env))) = [NaN, NaN]
   \<and> (0 < dt \<longrightarrow>
        (\<exists>p q. 0 < p \<and> 0 < q
           \<and> map vx (nodes (fst (step dt
                 (state_of [(fresh 100 100)\<lparr>vx := Num va, vy := Num wa\<rparr>,
                            (fresh 110 100)\<lparr>vx := Num vb, vy := Num wb\<rparr>]) env)))
               = [Num (va - p), Num (vb + q)]
           \<and> map vy (nodes (fst (step dt
                 (state_of [(fresh 100 100)\<lparr>vx := Num va, vy := Num wa\<rparr>,
                            (fresh 110 100)\<lparr>vx := Num vb, vy := Num wb\<rparr>]) env)))
               = [Num wa, Num wb]))
   \<and> (reachable st' env' \<longrightarrow> list_all velocity_not_numeric (nodes st'))"
proof -
  let ?F = "10 / 10.000001 * (0.05 / 100.000001) :: real"
  have fresh_vals: "map vx (nodes (fst (step dt (state_of [fresh 100 100, fresh 110 100]) env))) = [NaN, NaN]"
    "map vy (nodes (fst (step dt (state_of [fresh 100 100, fresh 110 100]) env))) = [NaN, NaN]"
  proof -
    have ns: "nodes (state_of [fresh 100 100, fresh 110 100]) = [fresh 100 100, fresh 110 100]"
      by (simp add: state_of_def)
    show "map vx (nodes (fst (step dt (state_of [fresh 100 100, fresh 110 100]) env))) = [NaN, NaN]"
      unfolding step_two(1) [OF ns]
      by (simp add: pair_update_ten_apart fresh_fields)
    show "map vy (nodes (fst (step dt (state_of [fresh 100 100, fresh 110 100]) env))) = [NaN, NaN]"
      unfolding step_two(2) [OF ns]
      by (simp add: pair_update_ten_apart fresh_fields)
  qed
  have numeric: "\<exists>p q. 0 < p \<and> 0 < q
           \<and> map vx (nodes (fst (step dt
                 (state_of [(fresh 100 100)\<lparr>vx := Num va, vy := Num wa\<rparr>,
                            (fresh 110 100)\<lparr>vx := Num vb, vy := Num wb\<rparr>]) env)))
               = [Num (va - p), Num (vb + q)]
           \<and> map vy (nodes (fst (step dt
                 (state_of [(fresh 100 100)\<lparr>vx := Num va, vy := Num wa\<rparr>,
                            (fresh 110 100)\<lparr>vx := Num vb, vy := Num wb\<rparr>]) env)))
               = [Num wa, Num wb]"
    if dt: "0 < dt"
  proof -
    let ?a = "(fresh 100 100)\<lparr>vx := Num va, vy := Num wa\<rparr>"
    let ?b = "(fresh 110 100)\<lparr>vx := Num vb, vy := Num wb\<rparr>"
    have ns: "nodes (state_of [?a, ?b]) = [?a, ?b]"
      by (simp add: state_of_def)
    have pos: "0 < ?F * dt * 1.1"
      using dt by simp
    have vx': "map vx (nodes (fst (step dt (state_of [?a, ?b]) env)))
        = [Num (va - ?F * dt * 1.1), Num (vb + ?F * dt * 1.1)]"
      unfolding step_two(1) [OF ns]
      by (simp add: pair_update_ten_apart fresh_fields)
    have vy': "map vy (nodes (fst (step dt (state_of [?a, ?b]) env))) = [Num wa, Num wb]"
      unfolding step_two(2) [OF ns]
      by (simp add: pair_update_ten_apart fresh_fields)
    show ?thesis
      by (rule exI [where x = "?F * dt * 1.1"], rule exI [where x = "?F * dt * 1.1"])
         (intro conjI pos vx' vy')
  qed
  show ?thesis
    by (intro conjI impI fresh_vals numeric reachable_velocity_not_numeric) assumption+
qed

theorem repulsion_of_fresh_nodes_witness:
  "map vx (nodes (fst (step 0.016 (state_of [fresh 100 100, fresh 110 100]) env0))) = [NaN, NaN]
   \<and> map vy (nodes (fst (step 0.016 (state_of [fresh 100 100, fresh 110 100]) env0))) = [NaN, NaN]
   \<and> (\<exists>p q. 0 < p \<and> 0 < q
        \<and> map vx (nodes (fst (step 0.016
              (state_of [(fresh 100 100)\<lparr>vx := Num 0, vy := Num 0\<rparr>,
                         (fresh 110 100)\<lparr>vx := Num 0, vy := Num 0\<rparr>]) env0)))
            = [Num (0 - p), Num (0 + q)]
        \<and> map vy (nodes (fst (step 0.016
              (state_of [(fresh 100 100)\<lparr>vx := Num 0, vy := Num 0\<rparr>,
                         (fresh 110 100)\<lparr>vx := Num 0, vy := Num 0\<rparr>]) env0)))
            = [Num 0, Num 0])
   \<and> list_all velocity_not_numeric
        (nodes (fst (snd (form_submit [0x61] (fst (boot 800 600 env0)) (snd (boot 800 600 env0))))))"
  using repulsion_of_fresh_nodes [of "0.016" env0 0 0 0 0
      "fst (snd (form_submit [0x61] (fst (boot 800 600 env0)) (snd (boot 800 600 env0))))"
      "snd (snd (form_submit [0x61] (fst (boot 800 600 env0)) (snd (boot 800 600 env0))))"]
    reachable_after_submit [of "[0x61]" 800 600]
  by simp

subsection \<open>Ticks without forces\<close>

lemma pair_update_out_of_range:
  assumes "\<not> force_range a b"
  shows "vx (fst (pair_update dt a b)) = vx a" "vy (fst (pair_update dt a b)) = vy a"
    "vx (snd (pair_update dt a b)) = vx b" "vy (snd (pair_update dt a b)) = vy b"
  using assms by (auto simp: pair_update_def force_range_def Let_def)

lemma force_range_reads:
  assumes "x a' = x a" "y a' = y a" "x b' = x b" "y b' = y b"
  shows "force_range a' b' = force_range a b"
  by (simp add: force_range_def assms)

lemma map_pair_force_local:
  assumes "f (fst (pair_update dt (m ! i) (m ! j))) = f (m ! i)"
    and "f (snd (pair_update dt (m ! i) (m ! j))) = f (m ! j)"
  shows "map f (pair_force dt i j m) = map f m"
proof -
  have "map f (pair_force dt i j m) = (map f m)[i := f (m ! i), j := f (m ! j)]"
    by (simp add: pair_force_def split_beta map_update assms del: list_update_id)
  also have "\<dots> = map f m"
    by (simp add: map_update [symmetric])
  finally show ?thesis .
qed

lemma forces_no_force:
  assumes nf: "no_force ns"
  shows "map vx (forces dt ns) = map vx ns \<and> map vy (forces dt ns) = map vy ns"
proof -
  let ?R = "\<lambda>m m'::Node list. map x m = map x ns \<and> map y m = map y ns
              \<and> map vx m = map vx ns \<and> map vy m = map vy ns"
  have "?R (forces dt ns) (forces dt ns)"
  proof (rule forces_rel [where R = ?R])
    show "?R ns ns" by simp
    show "length ns = length ns" ..
  next
    fix i j and m m' :: "Node list"
    assume R: "?R m m'" and ij: "i < j" "j < length m"
    have len: "length m = length ns"
      using R map_eq_imp_length_eq by blast
    have at: "x (m ! k) = x (ns ! k)" "y (m ! k) = y (ns ! k)" if "k < length m" for k
      using R that len nth_map [of k m x] nth_map [of k ns x] nth_map [of k m y] nth_map [of k ns y]
      by simp_all
    have "\<not> force_range (ns ! i) (ns ! j)"
      using nf ij len unfolding no_force_def by simp
    then have out: "\<not> force_range (m ! i) (m ! j)"
      using at [of i] at [of j] ij force_range_reads [of "m ! i" "ns ! i" "m ! j" "ns ! j"] by simp
    have "map x (pair_force dt i j m) = map x m" "map y (pair_force dt i j m) = map y m"
      by (rule map_pair_force_local; simp add: pair_update_keeps)+
    moreover have "map vx (pair_force dt i j m) = map vx m" "map vy (pair_force dt i j m) = map vy m"
      by (rule map_pair_force_local; simp add: pair_update_out_of_range [OF out])+
    ultimately show "?R (pair_force dt i j m) (pair_force dt i j m')"
      using R by simp
  qed
  then show ?thesis by simp
qed

lemma no_force_reset: "no_force (reset_constellation ns) = no_force ns"
proof -
  have "force_range (reset_constellation ns ! i) (reset_constellation ns ! j)
      = force_range (ns ! i) (ns ! j)" if "i < length ns" "j < length ns" for i j
    using that by (simp add: reset_constellation_def force_range_def)
  then show ?thesis
    unfolding no_force_def length_reset_constellation by blast
qed

lemma step_no_force:
  assumes "no_force (nodes st)"
  shows "map vx (nodes (fst (step dt st env))) = map vx (nodes st)"
    and "map vy (nodes (fst (step dt st env))) = map vy (nodes st)"
proof -
  let ?pre = "forces dt (reset_constellation (nodes st))"
  have nf: "no_force (reset_constellation (nodes st))"
    using assms by (simp only: no_force_reset)
  have rs: "map vx (reset_constellation (nodes st)) = map vx (nodes st)"
    "map vy (reset_constellation (nodes st)) = map vy (nodes st)"
    by (simp_all add: reset_constellation_def)
  have pre: "map vx ?pre = map vx (nodes st)" "map vy ?pre = map vy (nodes st)"
    using forces_no_force [OF nf, of dt] by (simp_all only: rs)
  have "list_all2 (\<lambda>n n'. vx n' = vx n \<and> vy n' = vy n) ?pre
          (fst (move_nodes (width st) (height st) (noiseSeed st) dt ?pre env))"
    by (rule move_nodes_all2) (simp add: move_node_keeps)
  then have "map vx (nodes (fst (step dt st env))) = map vx ?pre
      \<and> map vy (nodes (fst (step dt st env))) = map vy ?pre"
    unfolding nodes_step by (induction rule: list_all2_induct) simp_all
  with pre show "map vx (nodes (fst (step dt st env))) = map vx (nodes st)"
    and "map vy (nodes (fst (step dt st env))) = map vy (nodes st)"
    by simp_all
qed

lemma no_force_single: "length ns \<le> 1 \<Longrightarrow> no_force ns"
  by (auto simp: no_force_def)

lemma nodes_after_first_submit:
  "\<exists>px py e. nodes (fst (snd (form_submit [0x61] (fst (boot w h env0)) (snd (boot w h env0)))))
      = [fst (new_Node [0x61] px py e)]"
proof -
  have w: "\<not> list_all is_whitespace [0x61]"
    by (simp add: is_whitespace_def)
  have tr: "trim [0x61] = [0x61]"
    by (simp add: trim_def is_whitespace_def)
  have empty: "nodes (fst (boot w h env0)) = []"
    by (simp add: boot_def Let_def split_beta resize_def)
  from form_submit_word(2) [OF w, of "fst (boot w h env0)" "snd (boot w h env0)"]
  show ?thesis
    unfolding tr empty by simp
qed

text \<open>
  C3 fails on the code. After start-up and the submission of one word the state is
  reachable and holds one node, whose velocity components are \<^verbatim>\<open>undefined\<close>; after a tick
  they are \<^verbatim>\<open>undefined\<close> still, whereas a multiplication by the drag would have made them
  \<^verbatim>\<open>NaN\<close>. No tick multiplies a velocity.
\<close>

theorem drag_counterexample:
  "reachable (fst (snd (form_submit [0x61] (fst (boot 800 600 env0)) (snd (boot 800 600 env0)))))
             (snd (snd (form_submit [0x61] (fst (boot 800 600 env0)) (snd (boot 800 600 env0)))))
   \<and> map vx (nodes (fst (snd (form_submit [0x61] (fst (boot 800 600 env0)) (snd (boot 800 600 env0))))))
       = [Undefined]
   \<and> map vx (nodes (fst (step 0.016
          (fst (snd (form_submit [0x61] (fst (boot 800 600 env0)) (snd (boot 800 600 env0)))))
          (snd (snd (form_submit [0x61] (fst (boot 800 600 env0)) (snd (boot 800 600 env0))))))))
       = [Undefined]
   \<and> map vy (nodes (fst (step 0.016
          (fst (snd (form_submit [0x61] (fst (boot 800 600 env0)) (snd (boot 800 600 env0)))))
          (snd (snd (form_submit [0x61] (fst (boot 800 600 env0)) (snd (boot 800 600 env0))))))))
       = [Undefined]
   \<and> js_mul Undefined (globalDrag PHYS) \<noteq> Undefined"
proof -
  let ?st = "fst (snd (form_submit [0x61] (fst (boot 800 600 env0)) (snd (boot 800 600 env0))))"
  let ?env = "snd (snd (form_submit [0x61] (fst (boot 800 600 env0)) (snd (boot 800 600 env0))))"
  obtain px py e where ns: "nodes ?st = [fst (new_Node [0x61] px py e)]"
    using nodes_after_first_submit by blast
  have v: "map vx (nodes ?st) = [Undefined]" "map vy (nodes ?st) = [Undefined]"
    by (simp_all add: ns new_Node_fields)
  have "no_force (nodes ?st)"
    by (rule no_force_single) (simp add: ns)
  then have "map vx (nodes (fst (step 0.016 ?st ?env))) = [Undefined]"
    "map vy (nodes (fst (step 0.016 ?st ?env))) = [Undefined]"
    using step_no_force [of ?st "0.016" ?env] v by simp_all
  with v reachable_after_submit [of "[0x61]" 800 600] show ?thesis
    by simp
qed

text \<open>
  C3, amended. \<open>step\<close> applies no drag: the constant \<open>globalDrag\<close> is \<open>0.98\<close> and no
  function reads it. In a tick in which no pair of nodes is within the range of a
  force (so in every tick of a state of one node), the velocity components of every
  node are exactly what they were: they neither decay nor grow.
\<close>

theorem tick_applies_no_drag:
  "globalDrag PHYS = 0.98
   \<and> (no_force (nodes st) \<longrightarrow>
        map vx (nodes (fst (step dt st env))) = map vx (nodes st)
        \<and> map vy (nodes (fst (step dt st env))) = map vy (nodes st))
   \<and> (length (nodes st) \<le> 1 \<longrightarrow> no_force (nodes st))"
  using step_no_force [of st dt env] no_force_single [of "nodes st"]
  by (simp add: PHYS_def)

theorem tick_applies_no_drag_witness:
  "no_force (nodes (state_of [fresh 0 0]))
   \<and> map vx (nodes (fst (step 0.016 (state_of [fresh 0 0]) env0))) = [Undefined]
   \<and> map vy (nodes (fst (step 0.016 (state_of [fresh 0 0]) env0))) = [Undefined]
   \<and> no_force (nodes (state_of [fresh 0 0, fresh 500 0]))
   \<and> map vx (nodes (fst (step 0.016 (state_of [fresh 0 0, fresh 500 0]) env0))) = [Undefined, Undefined]"
proof -
  have one: "length (nodes (state_of [fresh 0 0])) \<le> 1"
    by (simp add: state_of_def)
  have d: "sqrt ((500 - 0) * (500 - 0) + (0 - 0) * (0 - 0)) = (500::real)"
    by simp
  have two: "no_force (nodes (state_of [fresh 0 0, fresh 500 0]))"
    unfolding no_force_def force_range_def state_of_def Let_def
    by (simp add: nth_Cons' fresh_fields PHYS_def)
  from tick_applies_no_drag [of "state_of [fresh 0 0]" "0.016" env0] one
    tick_applies_no_drag [of "state_of [fresh 0 0, fresh 500 0]" "0.016" env0] two
  show ?thesis
    by (simp add: state_of_def fresh_fields)
qed

subsection \<open>A tick of no duration\<close>

lemma stages_dt_0:
  "drift_centers seed time 0 n = n"
  "advance_phases 0 n = n"
  "seek_target 0 n = n"
  "jitter seed time 0 n = n"
  "fst (rotate_node 0 n env) = n"
  by (simp_all add: drift_centers_def advance_phases_def seek_target_def jitter_def
      rotate_node_def Let_def split_beta)

lemma soft_wrap_x:
  "x (fst (soft_wrap w h n env)) = (if x n < - 40 then w + 40 else if x n > w + 40 then - 40 else x n)"
  by (simp add: soft_wrap_def Let_def split_beta)

lemma soft_wrap_y:
  "y (fst (soft_wrap w h n env)) = (if y n < - 40 then h + 40 else if y n > h + 40 then - 40 else y n)"
  by (simp add: soft_wrap_def Let_def split_beta)

lemma move_node_dt_0:
  "x (fst (move_node w h seed 0 n env))
     = (if x n < - 40 then w + 40 else if x n > w + 40 then - 40 else x n)"
  "y (fst (move_node w h seed 0 n env))
     = (if y n < - 40 then h + 40 else if y n > h + 40 then - 40 else y n)"
  "orbitPhase (fst (move_node w h seed 0 n env)) = orbitPhase n"
  "secondaryPhase (fst (move_node w h seed 0 n env)) = secondaryPhase n"
  by (simp_all add: move_node_def Let_def split_beta stages_dt_0 push_trail_keeps
      soft_wrap_x soft_wrap_y soft_wrap_keeps)

lemma pair_update_dt_0:
  "vx a \<noteq> Undefined \<Longrightarrow> vx (fst (pair_update 0 a b)) = vx a"
  "vy a \<noteq> Undefined \<Longrightarrow> vy (fst (pair_update 0 a b)) = vy a"
  "vx b \<noteq> Undefined \<Longrightarrow> vx (snd (pair_update 0 a b)) = vx b"
  "vy b \<noteq> Undefined \<Longrightarrow> vy (snd (pair_update 0 a b)) = vy b"
proof -
  have "v \<noteq> Undefined \<Longrightarrow> js_add v 0 = v" "v \<noteq> Undefined \<Longrightarrow> js_sub v 0 = v" for v
    by (cases v; simp)+
  then show "vx a \<noteq> Undefined \<Longrightarrow> vx (fst (pair_update 0 a b)) = vx a"
    "vy a \<noteq> Undefined \<Longrightarrow> vy (fst (pair_update 0 a b)) = vy a"
    "vx b \<noteq> Undefined \<Longrightarrow> vx (snd (pair_update 0 a b)) = vx b"
    "vy b \<noteq> Undefined \<Longrightarrow> vy (snd (pair_update 0 a b)) = vy b"
    by (simp_all add: pair_update_def Let_def)
qed

lemma forces_dt_0:
  "list_all2 (\<lambda>n n'. x n' = x n \<and> y n' = y n
        \<and> orbitPhase n' = orbitPhase n \<and> secondaryPhase n' = secondaryPhase n
        \<and> (vx n \<noteq> Undefined \<longrightarrow> vx n' = vx n) \<and> (vy n \<noteq> Undefined \<longrightarrow> vy n' = vy n))
     ns (forces 0 ns)"
  by (rule forces_all2) (simp_all add: pair_update_keeps pair_update_dt_0)

lemma step_dt_0:
  assumes k: "k < length (nodes st)" and m: "in_margin (width st) (height st) (nodes st ! k)"
  shows "x (nodes (fst (step 0 st env)) ! k) = x (nodes st ! k)"
    and "y (nodes (fst (step 0 st env)) ! k) = y (nodes st ! k)"
    and "orbitPhase (nodes (fst (step 0 st env)) ! k) = orbitPhase (nodes st ! k)"
    and "secondaryPhase (nodes (fst (step 0 st env)) ! k) = secondaryPhase (nodes st ! k)"
    and "vx (nodes st ! k) \<noteq> Undefined \<Longrightarrow> vx (nodes (fst (step 0 st env)) ! k) = vx (nodes st ! k)"
    and "vy (nodes st ! k) \<noteq> Undefined \<Longrightarrow> vy (nodes (fst (step 0 st env)) ! k) = vy (nodes st ! k)"
proof -
  let ?r = "reset_constellation (nodes st)"
  let ?p = "forces 0 ?r ! k"
  have kr: "k < length ?r"
    using k by (simp add: length_reset_constellation)
  have r: "x (?r ! k) = x (nodes st ! k)" "y (?r ! k) = y (nodes st ! k)"
    "orbitPhase (?r ! k) = orbitPhase (nodes st ! k)"
    "secondaryPhase (?r ! k) = secondaryPhase (nodes st ! k)"
    "vx (?r ! k) = vx (nodes st ! k)" "vy (?r ! k) = vy (nodes st ! k)"
    using k by (simp_all add: reset_constellation_def)
  have p: "x ?p = x (?r ! k)" "y ?p = y (?r ! k)" "orbitPhase ?p = orbitPhase (?r ! k)"
    "secondaryPhase ?p = secondaryPhase (?r ! k)"
    "vx (?r ! k) \<noteq> Undefined \<longrightarrow> vx ?p = vx (?r ! k)"
    "vy (?r ! k) \<noteq> Undefined \<longrightarrow> vy ?p = vy (?r ! k)"
    using list_all2_nthD [OF forces_dt_0 [of ?r] kr] by simp_all
  obtain e where e: "nodes (fst (step 0 st env)) ! k
      = fst (move_node (width st) (height st) (noiseSeed st) 0 ?p e)"
    using step_nth [OF k] by blast
  have inside: "\<not> x ?p < - 40" "\<not> x ?p > width st + 40" "\<not> y ?p < - 40" "\<not> y ?p > height st + 40"
    using m unfolding in_margin_def p(1,2) r(1,2) by simp_all
  show "x (nodes (fst (step 0 st env)) ! k) = x (nodes st ! k)"
    and "y (nodes (fst (step 0 st env)) ! k) = y (nodes st ! k)"
    and "orbitPhase (nodes (fst (step 0 st env)) ! k) = orbitPhase (nodes st ! k)"
    and "secondaryPhase (nodes (fst (step 0 st env)) ! k) = secondaryPhase (nodes st ! k)"
    unfolding e move_node_dt_0 using inside by (simp_all add: p r)
  show "vx (nodes (fst (step 0 st env)) ! k) = vx (nodes st ! k)" if "vx (nodes st ! k) \<noteq> Undefined"
    unfolding e using that p(5) by (simp add: move_node_keeps r)
  show "vy (nodes (fst (step 0 st env)) ! k) = vy (nodes st ! k)" if "vy (nodes st ! k) \<noteq> Undefined"
    unfolding e using that p(6) by (simp add: move_node_keeps r)
qed

lemma step_dt_0_wrap:
  assumes k: "k < length (nodes st)"
  shows "x (nodes (fst (step 0 st env)) ! k)
           = (if x (nodes st ! k) < - 40 then width st + 40
              else if x (nodes st ! k) > width st + 40 then - 40 else x (nodes st ! k))"
proof -
  let ?r = "reset_constellation (nodes st)"
  let ?p = "forces 0 ?r ! k"
  have kr: "k < length ?r"
    using k by (simp add: length_reset_constellation)
  have "x (?r ! k) = x (nodes st ! k)"
    using k by (simp add: reset_constellation_def)
  moreover have "x ?p = x (?r ! k)"
    using list_all2_nthD [OF forces_dt_0 [of ?r] kr] by simp
  moreover obtain e where "nodes (fst (step 0 st env)) ! k
      = fst (move_node (width st) (height st) (noiseSeed st) 0 ?p e)"
    using step_nth [OF k] by blast
  ultimately show ?thesis
    by (simp only: move_node_dt_0)
qed

text \<open>
  C5 fails on the code: a node at \<open>x = 900\<close> on a canvas \<open>800\<close> wide (a window that was made
  narrower) is at \<open>x = -40\<close> after a tick with \<open>dt = 0\<close>, the soft wrap not being scaled
  by the time step.
\<close>

theorem zero_dt_counterexample:
  "x (nodes (state_of [fresh 900 0]) ! 0) = 900
   \<and> x (nodes (fst (step 0 (state_of [fresh 900 0]) env0)) ! 0) = - 40"
proof -
  have k: "0 < length (nodes (state_of [fresh 900 0]))"
    by (simp add: state_of_def)
  show ?thesis
    unfolding step_dt_0_wrap [OF k] by (simp add: state_of_def fresh_fields)
qed

lemma step_dt_0_any:
  assumes k: "k < length (nodes st)"
  shows "orbitPhase (nodes (fst (step 0 st env)) ! k) = orbitPhase (nodes st ! k)"
    and "secondaryPhase (nodes (fst (step 0 st env)) ! k) = secondaryPhase (nodes st ! k)"
    and "vx (nodes st ! k) \<noteq> Undefined \<Longrightarrow> vx (nodes (fst (step 0 st env)) ! k) = vx (nodes st ! k)"
    and "vy (nodes st ! k) \<noteq> Undefined \<Longrightarrow> vy (nodes (fst (step 0 st env)) ! k) = vy (nodes st ! k)"
    and "x (nodes (fst (step 0 st env)) ! k)
           = (if x (nodes st ! k) < - 40 then width st + 40
              else if x (nodes st ! k) > width st + 40 then - 40 else x (nodes st ! k))"
    and "y (nodes (fst (step 0 st env)) ! k)
           = (if y (nodes st ! k) < - 40 then height st + 40
              else if y (nodes st ! k) > height st + 40 then - 40 else y (nodes st ! k))"
proof -
  let ?r = "reset_constellation (nodes st)"
  let ?p = "forces 0 ?r ! k"
  have kr: "k < length ?r"
    using k by (simp add: length_reset_constellation)
  have r: "x (?r ! k) = x (nodes st ! k)" "y (?r ! k) = y (nodes st ! k)"
    "orbitPhase (?r ! k) = orbitPhase (nodes st ! k)"
    "secondaryPhase (?r ! k) = secondaryPhase (nodes st ! k)"
    "vx (?r ! k) = vx (nodes st ! k)" "vy (?r ! k) = vy (nodes st ! k)"
    using k by (simp_all add: reset_constellation_def)
  have p: "x ?p = x (?r ! k)" "y ?p = y (?r ! k)" "orbitPhase ?p = orbitPhase (?r ! k)"
    "secondaryPhase ?p = secondaryPhase (?r ! k)"
    "vx (?r ! k) \<noteq> Undefined \<longrightarrow> vx ?p = vx (?r ! k)"
    "vy (?r ! k) \<noteq> Undefined \<longrightarrow> vy ?p = vy (?r ! k)"
    using list_all2_nthD [OF forces_dt_0 [of ?r] kr] by simp_all
  obtain e where e: "nodes (fst (step 0 st env)) ! k
      = fst (move_node (width st) (height st) (noiseSeed st) 0 ?p e)"
    using step_nth [OF k] by blast
  show "orbitPhase (nodes (fst (step 0 st env)) ! k) = orbitPhase (nodes st ! k)"
    and "secondaryPhase (nodes (fst (step 0 st env)) ! k) = secondaryPhase (nodes st ! k)"
    unfolding e move_node_dt_0 by (simp_all add: p r)
  show "x (nodes (fst (step 0 st env)) ! k)
           = (if x (nodes st ! k) < - 40 then width st + 40
              else if x (nodes st ! k) > width st + 40 then - 40 else x (nodes st ! k))"
    and "y (nodes (fst (step 0 st env)) ! k)
           = (if y (nodes st ! k) < - 40 then height st + 40
              else if y (nodes st ! k) > height st + 40 then - 40 else y (nodes st ! k))"
    unfolding e move_node_dt_0 by (simp_all only: p r)
  show "vx (nodes (fst (step 0 st env)) ! k) = vx (nodes st ! k)" if "vx (nodes st ! k) \<noteq> Undefined"
    unfolding e using that p(5) by (simp add: move_node_keeps r)
  show "vy (nodes (fst (step 0 st env)) ! k) = vy (nodes st ! k)" if "vy (nodes st ! k) \<noteq> Undefined"
    unfolding e using that p(6) by (simp add: move_node_keeps r)
qed

text \<open>
  C5, amended. A tick with \<open>dt = 0\<close> leaves the number of nodes, the two orbital phases
  of every node and every velocity component that is not \<^verbatim>\<open>undefined\<close> as they were. It
  leaves the position of every node within the wrap margin (\<open>-40 \<le> x \<le> width + 40\<close> and
  \<open>-40 \<le> y \<le> height + 40\<close>) as it was; a coordinate beyond the margin is moved to the
  opposite edge, as the soft wrap does at any \<open>dt\<close>.
\<close>

theorem zero_dt_tick:
  "length (nodes (fst (step 0 st env))) = length (nodes st)
   \<and> (k < length (nodes st) \<longrightarrow>
        orbitPhase (nodes (fst (step 0 st env)) ! k) = orbitPhase (nodes st ! k)
        \<and> secondaryPhase (nodes (fst (step 0 st env)) ! k) = secondaryPhase (nodes st ! k)
        \<and> (vx (nodes st ! k) \<noteq> Undefined \<longrightarrow>
             vx (nodes (fst (step 0 st env)) ! k) = vx (nodes st ! k))
        \<and> (vy (nodes st ! k) \<noteq> Undefined \<longrightarrow>
             vy (nodes (fst (step 0 st env)) ! k) = vy (nodes st ! k))
        \<and> (in_margin (width st) (height st) (nodes st ! k) \<longrightarrow>
             x (nodes (fst (step 0 st env)) ! k) = x (nodes st ! k)
             \<and> y (nodes (fst (step 0 st env)) ! k) = y (nodes st ! k))
        \<and> x (nodes (fst (step 0 st env)) ! k)
             = (if x (nodes st ! k) < - 40 then width st + 40
                else if x (nodes st ! k) > width st + 40 then - 40 else x (nodes st ! k))
        \<and> y (nodes (fst (step 0 st env)) ! k)
             = (if y (nodes st ! k) < - 40 then height st + 40
                else if y (nodes st ! k) > height st + 40 then - 40 else y (nodes st ! k)))"
  using step_dt_0_any [of k st env] step_dt_0(1,2) [of k st env]
  by (simp add: length_nodes_step)

lemma tick_of_fresh_pair_velocity:
  "map vx (nodes (fst (step dt (state_of [fresh 100 100, fresh 110 100]) env))) = [NaN, NaN]"
  "map vy (nodes (fst (step dt (state_of [fresh 100 100, fresh 110 100]) env))) = [NaN, NaN]"
proof -
  have ns: "nodes (state_of [fresh 100 100, fresh 110 100]) = [fresh 100 100, fresh 110 100]"
    by (simp add: state_of_def)
  show "map vx (nodes (fst (step dt (state_of [fresh 100 100, fresh 110 100]) env))) = [NaN, NaN]"
    unfolding step_two(1) [OF ns] by (simp add: pair_update_ten_apart fresh_fields)
  show "map vy (nodes (fst (step dt (state_of [fresh 100 100, fresh 110 100]) env))) = [NaN, NaN]"
    unfolding step_two(2) [OF ns] by (simp add: pair_update_ten_apart fresh_fields)
qed

theorem zero_dt_tick_witness:
  "vx (nodes (fst (step 0.016 (state_of [fresh 100 100, fresh 110 100]) env0)) ! 0) = NaN
   \<and> vx (nodes (fst (step 0 (fst (step 0.016 (state_of [fresh 100 100, fresh 110 100]) env0))
                           (snd (step 0.016 (state_of [fresh 100 100, fresh 110 100]) env0)))) ! 0)
       = NaN
   \<and> vy (nodes (fst (step 0 (fst (step 0.016 (state_of [fresh 100 100, fresh 110 100]) env0))
                           (snd (step 0.016 (state_of [fresh 100 100, fresh 110 100]) env0)))) ! 0)
       = NaN
   \<and> orbitPhase (nodes (fst (step 0 (fst (step 0.016 (state_of [fresh 100 100, fresh 110 100]) env0))
                           (snd (step 0.016 (state_of [fresh 100 100, fresh 110 100]) env0)))) ! 0)
       = orbitPhase (nodes (fst (step 0.016 (state_of [fresh 100 100, fresh 110 100]) env0)) ! 0)
   \<and> x (nodes (fst (step 0 (state_of [fresh 0 0]) env0)) ! 0) = 0
   \<and> y (nodes (fst (step 0 (state_of [fresh 0 0]) env0)) ! 0) = 0
   \<and> x (nodes (fst (step 0 (state_of [fresh 900 0]) env0)) ! 0) = - 40"
proof -
  let ?st = "fst (step 0.016 (state_of [fresh 100 100, fresh 110 100]) env0)"
  let ?env = "snd (step 0.016 (state_of [fresh 100 100, fresh 110 100]) env0)"
  let ?in = "state_of [fresh 0 0]"
  let ?out = "state_of [fresh 900 0]"
  have k: "0 < length (nodes ?st)" "0 < length (nodes ?in)" "0 < length (nodes ?out)"
    by (simp_all add: length_nodes_step) (simp_all add: state_of_def)
  have "map vx (nodes ?st) ! 0 = NaN" "map vy (nodes ?st) ! 0 = NaN"
    by (simp_all only: tick_of_fresh_pair_velocity nth_Cons_0)
  then have v: "vx (nodes ?st ! 0) = NaN" "vy (nodes ?st ! 0) = NaN"
    using k(1) by simp_all
  have m: "in_margin (width ?in) (height ?in) (nodes ?in ! 0)"
    by (simp add: state_of_def in_margin_def fresh_fields)
  have p: "x (nodes ?in ! 0) = 0" "y (nodes ?in ! 0) = 0"
    "x (nodes ?out ! 0) = 900" "width ?out = 800"
    by (simp_all add: state_of_def fresh_fields)
  from zero_dt_tick [of ?st ?env 0] k(1) v
  have a: "vx (nodes (fst (step 0 ?st ?env)) ! 0) = NaN"
    "vy (nodes (fst (step 0 ?st ?env)) ! 0) = NaN"
    "orbitPhase (nodes (fst (step 0 ?st ?env)) ! 0) = orbitPhase (nodes ?st ! 0)"
    by simp_all
  from zero_dt_tick [of ?in env0 0] k(2) m
  have b: "x (nodes (fst (step 0 ?in env0)) ! 0) = 0" "y (nodes (fst (step 0 ?in env0)) ! 0) = 0"
    unfolding p by simp_all
  from zero_dt_tick [of ?out env0 0] k(3)
  have c: "x (nodes (fst (step 0 ?out env0)) ! 0) = - 40"
    unfolding p by simp
  from v(1) a b c show ?thesis by simp
qed

subsection \<open>Constellation marks and the link of a pair\<close>

lemma pair_update_mark:
  "inConstellation (fst (pair_update dt a b))
     \<longleftrightarrow> inConstellation a \<or> hypot (x b - x a) (y b - y a) + 0.000001 < 120"
  "inConstellation (snd (pair_update dt a b))
     \<longleftrightarrow> inConstellation b \<or> hypot (x b - x a) (y b - y a) + 0.000001 < 120"
  by (simp_all add: pair_update_def Let_def hypot_def PHYS_def)

lemma links_two:
  assumes "nodes st = [a, b]"
  shows "links (rebuildLinks st)
           = (if hypot (x b - x a) (y b - y a) < 120
              then [\<lparr> li = 0, lj = 1, ld = hypot (x b - x a) (y b - y a) \<rparr>] else [])"
proof -
  have "[0 ..< length [a, b]] = [0, 1]" "[0 + 1 ..< length [a, b]] = [1]"
    "[1 + 1 ..< length [a, b]] = []"
    by (simp_all add: upt_rec)
  then show ?thesis
    by (simp add: links_rebuildLinks assms link_pair_def Let_def PHYS_def)
qed

lemma step_links: "nodes st \<noteq> [] \<Longrightarrow>
    links (fst (step dt st env)) = links (rebuildLinks (st\<lparr>nodes := nodes (fst (step dt st env))\<rparr>))"
  by (simp add: step_def Let_def split_beta rebuildLinks_def)

lemma step_two_links:
  assumes "nodes st = [a, b]"
  shows "links (fst (step dt st env))
           = (if node_dist (nodes (fst (step dt st env))) 0 1 < 120
              then [\<lparr> li = 0, lj = 1, ld = node_dist (nodes (fst (step dt st env))) 0 1 \<rparr>] else [])"
proof -
  let ?ns' = "nodes (fst (step dt st env))"
  have "length ?ns' = 2"
    using assms by (simp add: length_nodes_step)
  then obtain a' b' where ns': "?ns' = [a', b']"
    using list_two_nth by blast
  have "links (fst (step dt st env)) = links (rebuildLinks (st\<lparr>nodes := [a', b']\<rparr>))"
    using step_links [of st dt env] assms ns' by simp
  also have "\<dots> = (if hypot (x b' - x a') (y b' - y a') < 120
              then [\<lparr> li = 0, lj = 1, ld = hypot (x b' - x a') (y b' - y a') \<rparr>] else [])"
    by (rule links_two) simp
  finally show ?thesis
    by (simp add: ns' node_dist_def)
qed

text \<open>
  C4 fails on the code: of two nodes exactly 150 apart, at \<open>(0, 0)\<close> and \<open>(150, 0)\<close>, the
  Force Field pass marks neither (150 is not below the constellation distance 120),
  neither is marked after the tick, and the Link Builder gives no link on these
  positions.
\<close>

theorem constellation_150_counterexample:
  "node_dist [fresh 0 0, fresh 150 0] 0 1 = 150
   \<and> map inConstellation (forces 0.016 (reset_constellation [fresh 0 0, fresh 150 0])) = [False, False]
   \<and> map inConstellation (nodes (fst (step 0.016 (state_of [fresh 0 0, fresh 150 0]) env0)))
       = [False, False]
   \<and> links (rebuildLinks (state_of [fresh 0 0, fresh 150 0])) = []"
proof -
  have d: "hypot 150 0 = 150"
    by (simp add: hypot_def)
  have ns: "nodes (state_of [fresh 0 0, fresh 150 0]) = [fresh 0 0, fresh 150 0]"
    by (simp add: state_of_def)
  have "node_dist [fresh 0 0, fresh 150 0] 0 1 = 150"
    by (simp add: node_dist_def fresh_fields d)
  moreover have "map inConstellation (forces 0.016 (reset_constellation [fresh 0 0, fresh 150 0]))
      = [False, False]"
    by (simp add: reset_constellation_def forces_two pair_update_mark fresh_fields d)
  moreover have "map inConstellation (nodes (fst (step 0.016 (state_of [fresh 0 0, fresh 150 0]) env0)))
      = [False, False]"
    unfolding step_two(3) [OF ns] by (simp add: pair_update_mark fresh_fields d)
  moreover have "links (rebuildLinks (state_of [fresh 0 0, fresh 150 0])) = []"
    unfolding links_two [OF ns] by (simp add: fresh_fields d)
  ultimately show ?thesis by blast
qed

text \<open>
  C4, amended. In a state of exactly two nodes at Euclidean distance \<open>d\<close>, the Force
  Field pass marks both nodes \<open>inConstellation\<close> when \<open>d + 10\<^sup>-\<^sup>6 < 120\<close> and neither
  otherwise, and the marks stand at the end of the tick. The Link Builder gives exactly
  one link, between the two nodes and carrying their distance, when the distance of
  the positions it reads is below 120, and no link otherwise; within a tick it reads
  the positions after the motion.
\<close>

theorem constellation_mark_and_link:
  "nodes st = [a, b] \<longrightarrow>
     map inConstellation (forces dt (reset_constellation (nodes st)))
       = [hypot (x b - x a) (y b - y a) + 0.000001 < 120,
          hypot (x b - x a) (y b - y a) + 0.000001 < 120]
     \<and> map inConstellation (nodes (fst (step dt st env)))
       = [hypot (x b - x a) (y b - y a) + 0.000001 < 120,
          hypot (x b - x a) (y b - y a) + 0.000001 < 120]
     \<and> links (rebuildLinks st)
       = (if hypot (x b - x a) (y b - y a) < 120
          then [\<lparr> li = 0, lj = 1, ld = hypot (x b - x a) (y b - y a) \<rparr>] else [])
     \<and> links (fst (step dt st env))
       = (if node_dist (nodes (fst (step dt st env))) 0 1 < 120
          then [\<lparr> li = 0, lj = 1, ld = node_dist (nodes (fst (step dt st env))) 0 1 \<rparr>] else [])"
proof
  assume ns: "nodes st = [a, b]"
  have "map inConstellation (forces dt (reset_constellation (nodes st)))
       = [hypot (x b - x a) (y b - y a) + 0.000001 < 120,
          hypot (x b - x a) (y b - y a) + 0.000001 < 120]"
    by (simp add: ns reset_constellation_def forces_two pair_update_mark)
  moreover have "map inConstellation (nodes (fst (step dt st env)))
       = [hypot (x b - x a) (y b - y a) + 0.000001 < 120,
          hypot (x b - x a) (y b - y a) + 0.000001 < 120]"
    unfolding step_two(3) [OF ns] by (simp add: pair_update_mark)
  ultimately show "map inConstellation (forces dt (reset_constellation (nodes st)))
       = [hypot (x b - x a) (y b - y a) + 0.000001 < 120,
          hypot (x b - x a) (y b - y a) + 0.000001 < 120]
     \<and> map inConstellation (nodes (fst (step dt st env)))
       = [hypot (x b - x a) (y b - y a) + 0.000001 < 120,
          hypot (x b - x a) (y b - y a) + 0.000001 < 120]
     \<and> links (rebuildLinks st)
       = (if hypot (x b - x a) (y b - y a) < 120
          then [\<lparr> li = 0, lj = 1, ld = hypot (x b - x a) (y b - y a) \<rparr>] else [])
     \<and> links (fst (step dt st env))
       = (if node_dist (nodes (fst (step dt st env))) 0 1 < 120
          then [\<lparr> li = 0, lj = 1, ld = node_dist (nodes (fst (step dt st env))) 0 1 \<rparr>] else [])"
    using links_two [OF ns] step_two_links [OF ns, of dt env] by blast
qed

theorem constellation_mark_and_link_witness:
  "map inConstellation (forces 0.016 (reset_constellation (nodes (state_of [fresh 0 0, fresh 100 0]))))
     = [True, True]
   \<and> map inConstellation (nodes (fst (step 0.016 (state_of [fresh 0 0, fresh 100 0]) env0)))
     = [True, True]
   \<and> links (rebuildLinks (state_of [fresh 0 0, fresh 100 0])) = [\<lparr> li = 0, lj = 1, ld = 100 \<rparr>]"
proof -
  have d: "hypot 100 0 = 100"
    by (simp add: hypot_def)
  have ns: "nodes (state_of [fresh 0 0, fresh 100 0]) = [fresh 0 0, fresh 100 0]"
    by (simp add: state_of_def)
  from constellation_mark_and_link [of "state_of [fresh 0 0, fresh 100 0]" "fresh 0 0" "fresh 100 0"
      "0.016" env0] ns
  show ?thesis
    by (simp add: fresh_fields d)
qed

end
